theory Spec2Isabelle
  imports Main
begin

section \<open>JavaScript values and the State object\<close>

text \<open>
  The adaptor (src/Adaptor.js) threads a State object through a sequence of Operations and
  talks to three collaborators that are not part of the repository: the expansion helper
  and the pipeline executor of language-common, the query builder squel, and the driver
  mysql. Values that cross these boundaries are JavaScript values. An object, an array and
  a Date carry an identity, so that "the same object" and "a copy of it" are different
  values; \<open>undefined\<close> is the absence of a value and is written \<open>None\<close>.
  Numbers are integers here (no NaN, no fractions).
\<close>

type_synonym ident = nat

datatype jsval =
    JNull
  | JBool bool
  | JNum int
  | JStr string
  | JDate ident string
  | JArr ident "jsval list"
  | JObj ident "(string \<times> jsval) list"

text \<open>
  A property of the State holds a value or the live connection handle that
  \<open>mysql.createConnection\<close> returned. The State's own properties form a dictionary.
\<close>

datatype slot = Val jsval | Connection nat

type_synonym jsobj = "string \<rightharpoonup> slot"

text \<open>JavaScript truthiness, as tested by \<open>if (err)\<close>.\<close>

fun truthy :: "jsval \<Rightarrow> bool" where
  "truthy JNull = False"
| "truthy (JBool b) = b"
| "truthy (JNum n) = (n \<noteq> 0)"
| "truthy (JStr s) = (s \<noteq> [])"
| "truthy (JDate i s) = True"
| "truthy (JArr i vs) = True"
| "truthy (JObj i ps) = True"

text \<open>Reading a property \<open>cfg.k\<close> of a value that is neither undefined nor null.\<close>

fun read_prop :: "slot \<Rightarrow> string \<Rightarrow> jsval option" where
  "read_prop (Val (JObj i ps)) k = map_of ps k"
| "read_prop s k = None"

text \<open>The identities of all objects, arrays and dates inside a value.\<close>

fun identities :: "jsval \<Rightarrow> ident list" where
  "identities JNull = []"
| "identities (JBool b) = []"
| "identities (JNum n) = []"
| "identities (JStr s) = []"
| "identities (JDate i s) = [i]"
| "identities (JArr i vs) = i # concat (map identities vs)"
| "identities (JObj i ps) = i # concat (map (\<lambda>p. identities (snd p)) ps)"

section \<open>The world: object store, connection events, console, module scope\<close>

datatype logarg = Txt string | Shown "jsval option"

datatype event =
    CreateConnection nat "jsval option" "jsval option" "jsval option" "jsval option" "jsval option"
  | ConnConnect nat
  | ConnQuery nat string
  | QueryCallback jsval jsval "jsval option"
  | ConnEnd nat
  | ConsoleLog "logarg list"

text \<open>
  The module-scope binding \<open>sqlString\<close>: declared by \<open>export function sqlString\<close>, and
  assigned a string by the Operation of \<open>insert\<close> (line 91 has no \<open>var\<close>, \<open>let\<close> or
  \<open>const\<close>).
\<close>

datatype binding = ExportedFunction | Text string

record world =
  heap :: "jsobj list"
  next_id :: nat
  trace :: "event list"
  sqlString_binding :: binding

datatype reason = TypeError | Err jsval

datatype outcome = Resolved nat | Rejected reason

text \<open>
  An Operation takes a reference to the State object (its index in the store) and returns
  a pending result: resolved with a reference to the next State, or rejected.
\<close>

type_synonym operation = "nat \<Rightarrow> world \<Rightarrow> outcome \<times> world"

definition obj_at :: "world \<Rightarrow> nat \<Rightarrow> jsobj" where
  "obj_at w r = heap w ! r"

definition new_object :: "jsobj \<Rightarrow> world \<Rightarrow> nat \<times> world" where
  "new_object obj w = (length (heap w), w\<lparr>heap := heap w @ [obj]\<rparr>)"

definition fresh :: "world \<Rightarrow> ident \<times> world" where
  "fresh w = (next_id w, w\<lparr>next_id := Suc (next_id w)\<rparr>)"

definition reserve :: "ident list \<Rightarrow> world \<Rightarrow> world" where
  "reserve js w = w\<lparr>next_id := fold max (map Suc js) (next_id w)\<rparr>"

definition emit :: "event \<Rightarrow> world \<Rightarrow> world" where
  "emit e w = w\<lparr>trace := trace w @ [e]\<rparr>"

section \<open>The pipeline executor of language-common\<close>

text \<open>
  Modelled from the spec: \<open>execute\<close> of language-common (imported as \<open>commonExecute\<close>) is
  not under src/. Section 4.1 of the specification: the Operations run one after the
  other, each on the State its predecessor produced; the first failure is propagated and
  no later Operation is invoked; with no Operation the result is the initial State.
\<close>

fun commonExecute :: "operation list \<Rightarrow> operation" where
  "commonExecute [] r w = (Resolved r, w)"
| "commonExecute (operation # operations) r w =
     (case operation r w of
        (Resolved r', w') \<Rightarrow> commonExecute operations r' w'
      | (Rejected e, w') \<Rightarrow> (Rejected e, w'))"

text \<open>
  The same run, recording the pending result of every Operation that is invoked:
  position \<open>i\<close> of the sequence is invoked exactly when the record has an entry \<open>i\<close>.
\<close>

fun steps :: "operation list \<Rightarrow> nat \<Rightarrow> world \<Rightarrow> (outcome \<times> world) list" where
  "steps [] r w = []"
| "steps (operation # operations) r w =
     (case operation r w of
        (Resolved r', w') \<Rightarrow> (Resolved r', w') # steps operations r' w'
      | (Rejected e, w') \<Rightarrow> [(Rejected e, w')])"

text \<open>The State and world an Operation at position \<open>i\<close> receives, given the record.\<close>

definition input_of :: "(outcome \<times> world) list \<Rightarrow> nat \<Rightarrow> world \<Rightarrow> nat \<Rightarrow> outcome \<times> world" where
  "input_of log r w i = (if i = 0 then (Resolved r, w) else log ! (i - 1))"

definition apply_to :: "operation \<Rightarrow> outcome \<times> world \<Rightarrow> outcome \<times> world" where
  "apply_to operation x = (case x of (Resolved r, w) \<Rightarrow> operation r w | (Rejected e, w) \<Rightarrow> (Rejected e, w))"

section \<open>The lifecycle wrapper (Adaptor.js, lines 20 to 60)\<close>

text \<open>
  \<open>connect\<close> destructures \<open>state.configuration\<close>, which throws a TypeError when the
  property is undefined or null; inside the executor's chain the throw is a rejection. It
  creates one connection, opens it, logs, and returns a copy of the State with
  \<open>connection\<close> set.
\<close>

definition connect :: operation where
  "connect r w =
     (case obj_at w r ''configuration'' of
        None \<Rightarrow> (Rejected TypeError, w)
      | Some (Val JNull) \<Rightarrow> (Rejected TypeError, w)
      | Some cfg \<Rightarrow>
          (let host = read_prop cfg ''host'';
               port = read_prop cfg ''port'';
               database = read_prop cfg ''database'';
               password = read_prop cfg ''password'';
               user = read_prop cfg ''user'';
               (connection, w1) = fresh w;
               w2 = emit (CreateConnection connection host user password database port) w1;
               w3 = emit (ConnConnect connection) w2;
               w4 = emit (ConsoleLog [Txt (''Preparing to query '' @ [CHR 0x22]), Shown database,
                                   Txt (CHR 0x22 # ''...'')]) w3;
               (r', w5) = new_object ((obj_at w4 r)(''connection'' \<mapsto> Connection connection)) w4
           in (Resolved r', w5)))"

text \<open>
  \<open>disconnect\<close> calls \<open>state.connection.end()\<close> and returns the State it was given;
  the call throws a TypeError when \<open>connection\<close> is not a connection.
\<close>

definition disconnect :: operation where
  "disconnect r w =
     (case obj_at w r ''connection'' of
        Some (Connection c) \<Rightarrow> (Resolved r, emit (ConnEnd c) w)
      | _ \<Rightarrow> (Rejected TypeError, w))"

text \<open>\<open>cleanupState\<close> deletes the property from the object it was given and returns that object.\<close>

definition cleanupState :: operation where
  "cleanupState r w =
     (Resolved r, w\<lparr>heap := (heap w)[r := (obj_at w r)(''connection'' := None)]\<rparr>)"

text \<open>
  \<open>execute(...operations)\<close> builds \<open>initialState\<close> (with a new empty array) and returns
  the Operation that merges the caller's State over it into a new object,
  \<open>{ ...initialState, ...state }\<close>, and hands the sequence connect, the caller's
  Operations, disconnect, cleanupState to the executor.
\<close>

definition merged_state :: "nat \<Rightarrow> world \<Rightarrow> nat \<times> world" where
  "merged_state r w =
     (let (a, w1) = fresh w;
          initialState = [''references'' \<mapsto> Val (JArr a []), ''data'' \<mapsto> Val JNull]
      in new_object (initialState ++ obj_at w1 r) w1)"

definition pipeline :: "operation list \<Rightarrow> operation list" where
  "pipeline operations = connect # operations @ [disconnect, cleanupState]"

definition execute :: "operation list \<Rightarrow> operation" where
  "execute operations r w =
     (let (r0, w0) = merged_state r w
      in commonExecute (pipeline operations) r0 w0)"

section \<open>The collaborators\<close>

text \<open>
  What the adaptor calls but does not define is a parameter: \<open>expandReferences\<close> of
  language-common (applied to the field specification and the State), the two squel
  builders with \<open>autoQuoteFieldNames\<close> that the adaptor runs up to \<open>toParam()\<close> (giving
  \<open>text\<close> and \<open>values\<close>), \<open>mysql.format\<close>, and the driver's answer to
  \<open>connection.query\<close>: the arguments \<open>(err, results, fields)\<close> it passes to the callback,
  which may depend on everything that happened before. The UPDATE builder can refuse
  the mapping it is given (squel throws when no field is set): its result is the value
  thrown (\<open>Inl\<close>) or the rendering (\<open>Inr\<close>).
\<close>

record 'f env =
  expandReferences :: "'f \<Rightarrow> jsobj \<Rightarrow> (string \<times> jsval) list"
  squel_insert :: "string \<Rightarrow> (string \<times> jsval) list \<Rightarrow> string \<times> jsval list"
  squel_update :: "string \<Rightarrow> (string \<times> jsval) list \<Rightarrow> jsval + (string \<times> jsval list)"
  mysql_format :: "string \<Rightarrow> jsval list \<Rightarrow> string"
  mysql_query :: "event list \<Rightarrow> nat \<Rightarrow> string \<Rightarrow> jsval \<times> jsval \<times> jsval option"

text \<open>
  \<open>connection.query(sql, callback)\<close> up to the call of the callback: the objects the
  driver created for its answer exist from then on, so their identities are taken.
\<close>

definition connection_query ::
  "'f env \<Rightarrow> nat \<Rightarrow> string \<Rightarrow> world \<Rightarrow> (jsval \<times> jsval \<times> jsval option) \<times> world" where
  "connection_query env c q w =
     (let (err, results, flds) = mysql_query env (trace w) c q;
          w1 = emit (ConnQuery c q) w;
          w2 = reserve (identities err @ identities results @
                         (case flds of None \<Rightarrow> [] | Some f \<Rightarrow> identities f)) w1
      in ((err, results, flds), emit (QueryCallback err results flds) w2))"

section \<open>JSON.stringify and JSON.parse\<close>

text \<open>
  \<open>sqlString\<close> passes the driver's result through \<open>JSON.parse(JSON.stringify(results))\<close>.
  The JSON text is represented by its syntax tree. \<open>JSON.stringify\<close> writes a Date as the
  string of its \<open>toJSON()\<close>; \<open>JSON.parse\<close> builds new objects and arrays, each with an
  identity that was not in use.
\<close>

datatype json =
    TNull
  | TBool bool
  | TNum int
  | TStr string
  | TArr "json list"
  | TObj "(string \<times> json) list"

fun JSON_stringify :: "jsval \<Rightarrow> json" where
  "JSON_stringify JNull = TNull"
| "JSON_stringify (JBool b) = TBool b"
| "JSON_stringify (JNum n) = TNum n"
| "JSON_stringify (JStr s) = TStr s"
| "JSON_stringify (JDate i s) = TStr s"
| "JSON_stringify (JArr i vs) = TArr (map JSON_stringify vs)"
| "JSON_stringify (JObj i ps) = TObj (map (\<lambda>p. (fst p, JSON_stringify (snd p))) ps)"

fun JSON_parse :: "json \<Rightarrow> ident \<Rightarrow> jsval \<times> ident"
  and parse_elements :: "json list \<Rightarrow> ident \<Rightarrow> jsval list \<times> ident"
  and parse_members :: "(string \<times> json) list \<Rightarrow> ident \<Rightarrow> (string \<times> jsval) list \<times> ident" where
  "JSON_parse TNull n = (JNull, n)"
| "JSON_parse (TBool b) n = (JBool b, n)"
| "JSON_parse (TNum k) n = (JNum k, n)"
| "JSON_parse (TStr s) n = (JStr s, n)"
| "JSON_parse (TArr ts) n = (let (vs, n') = parse_elements ts (Suc n) in (JArr n vs, n'))"
| "JSON_parse (TObj ms) n = (let (ps, n') = parse_members ms (Suc n) in (JObj n ps, n'))"
| "parse_elements [] n = ([], n)"
| "parse_elements (t # ts) n =
     (let (v, n1) = JSON_parse t n; (vs, n2) = parse_elements ts n1 in (v # vs, n2))"
| "parse_members [] n = ([], n)"
| "parse_members (m # ms) n =
     (let (v, n1) = JSON_parse (snd m) n; (ps, n2) = parse_members ms n1
      in ((fst m, v) # ps, n2))"

definition json_roundtrip :: "jsval \<Rightarrow> world \<Rightarrow> jsval \<times> world" where
  "json_roundtrip v w =
     (let (v', n') = JSON_parse (JSON_stringify v) (next_id w) in (v', w\<lparr>next_id := n'\<rparr>))"

text \<open>
  Deep equality compares structure and contents and ignores which object it is: the
  value with every identity erased.
\<close>

fun erase :: "jsval \<Rightarrow> jsval" where
  "erase JNull = JNull"
| "erase (JBool b) = JBool b"
| "erase (JNum n) = JNum n"
| "erase (JStr s) = JStr s"
| "erase (JDate i s) = JDate 0 s"
| "erase (JArr i vs) = JArr 0 (map erase vs)"
| "erase (JObj i ps) = JObj 0 (map (\<lambda>p. (fst p, erase (snd p))) ps)"

definition deep_equal :: "jsval \<Rightarrow> jsval \<Rightarrow> bool" where
  "deep_equal a b = (erase a = erase b)"

text \<open>Plain structured data: no Date anywhere inside.\<close>

fun plain_data :: "jsval \<Rightarrow> bool" where
  "plain_data (JDate i s) = False"
| "plain_data (JArr i vs) = list_all plain_data vs"
| "plain_data (JObj i ps) = list_all (\<lambda>p. plain_data (snd p)) ps"
| "plain_data v = True"

text \<open>The value a JSON text denotes, with every identity erased.\<close>

fun revive :: "json \<Rightarrow> jsval" where
  "revive TNull = JNull"
| "revive (TBool b) = JBool b"
| "revive (TNum n) = JNum n"
| "revive (TStr s) = JStr s"
| "revive (TArr ts) = JArr 0 (map revive ts)"
| "revive (TObj ms) = JObj 0 (map (\<lambda>m. (fst m, revive (snd m))) ms)"

section \<open>The query-executing Operations (Adaptor.js, lines 73 to 229)\<close>

text \<open>
  \<open>insert(table, fields)\<close>. The formatted statement is assigned to the module-scope
  binding \<open>sqlString\<close> and read from there. When \<open>state.connection\<close> is not a
  connection, \<open>connection.query\<close> throws inside the promise executor, which rejects.
\<close>

definition insert_op :: "'f env \<Rightarrow> string \<Rightarrow> 'f \<Rightarrow> operation" where
  "insert_op env table fieldsSpec r w =
     (let connection = obj_at w r ''connection'';
          valuesObj = expandReferences env fieldsSpec (obj_at w r);
          sqlParams = squel_insert env table valuesObj;
          sql = fst sqlParams;
          inserts = snd sqlParams;
          q = mysql_format env sql inserts;
          w1 = w\<lparr>sqlString_binding := Text q\<rparr>;
          w2 = emit (ConsoleLog [Txt (''Executing MySQL query: '' @ q)]) w1
      in case connection of
           Some (Connection c) \<Rightarrow>
             (let ((err, results, flds), w3) = connection_query env c q w2
              in if truthy err
                 then (Rejected (Err err),
                       emit (ConnEnd c)
                         (emit (ConsoleLog [Txt ''That's an error. Disconnecting from database.'']) w3))
                 else (let w4 = emit (ConsoleLog [Txt ''Success...'']) w3;
                           w5 = emit (ConsoleLog [Shown (Some results)]) w4;
                           w6 = emit (ConsoleLog [Shown flds]) w5;
                           data = results;
                           (b, w7) = fresh w6;
                           (r', w8) = new_object
                              ((obj_at w7 r)(''response'' \<mapsto> Val (JObj b [(''body'', data)]))) w7
                       in (Resolved r', w8)))
         | _ \<Rightarrow> (Rejected TypeError, w2))"

text \<open>
  \<open>upsert(table, fields)\<close>: the INSERT and an UPDATE of the table \<open>''\<close> are rendered from
  the same \<open>valuesObj\<close>; the statement is the INSERT, the keyword, and the UPDATE without
  its first ten characters (\<open>updateString.slice(10)\<close>). When the UPDATE builder throws,
  nothing has been logged or sent yet, and the throw is the rejection of the Operation.
\<close>

definition upsertString :: "'f env \<Rightarrow> string \<Rightarrow> (string \<times> jsval) list \<Rightarrow> jsval + string" where
  "upsertString env table valuesObj =
     (let insertParams = squel_insert env table valuesObj;
          insertString = mysql_format env (fst insertParams) (snd insertParams)
      in case squel_update env [] valuesObj of
           Inl thrown \<Rightarrow> Inl thrown
         | Inr updateParams \<Rightarrow>
             (let updateString = mysql_format env (fst updateParams) (snd updateParams)
              in Inr (insertString @ '' ON DUPLICATE KEY UPDATE '' @ drop 10 updateString)))"

definition upsert :: "'f env \<Rightarrow> string \<Rightarrow> 'f \<Rightarrow> operation" where
  "upsert env table fieldsSpec r w =
     (let connection = obj_at w r ''connection'';
          valuesObj = expandReferences env fieldsSpec (obj_at w r)
      in case upsertString env table valuesObj of
           Inl thrown \<Rightarrow> (Rejected (Err thrown), w)
         | Inr q \<Rightarrow>
             (let w2 = emit (ConsoleLog [Txt (''Executing MySQL query: '' @ q)]) w
              in case connection of
                   Some (Connection c) \<Rightarrow>
                     (let ((err, results, flds), w3) = connection_query env c q w2
                      in if truthy err
                         then (Rejected (Err err),
                               emit (ConnEnd c)
                                 (emit (ConsoleLog [Txt ''That's an error. Disconnecting from database.'']) w3))
                         else (let w4 = emit (ConsoleLog [Txt ''Success...'']) w3;
                                   w5 = emit (ConsoleLog [Shown (Some results)]) w4;
                                   w6 = emit (ConsoleLog [Shown flds]) w5;
                                   data = results;
                                   (b, w7) = fresh w6;
                                   (r', w8) = new_object
                                      ((obj_at w7 r)(''response'' \<mapsto> Val (JObj b [(''body'', data)]))) w7
                               in (Resolved r', w8)))
                 | _ \<Rightarrow> (Rejected TypeError, w2)))"

text \<open>
  \<open>sqlString(fun)\<close>: the statement is what the render function returns for the State;
  the result goes through the JSON round trip before it is resolved.
\<close>

definition sqlString :: "'f env \<Rightarrow> (jsobj \<Rightarrow> string) \<Rightarrow> operation" where
  "sqlString env render r w =
     (let connection = obj_at w r ''connection'';
          body = render (obj_at w r);
          w2 = emit (ConsoleLog [Txt (''Executing MySQL statement: '' @ body)]) w
      in case connection of
           Some (Connection c) \<Rightarrow>
             (let ((err, results, flds), w3) = connection_query env c body w2
              in if truthy err
                 then (Rejected (Err err),
                       emit (ConnEnd c)
                         (emit (ConsoleLog [Txt ''That's an error. Disconnecting from database.'']) w3))
                 else (let w4 = emit (ConsoleLog [Txt ''Success...'']) w3;
                           (data, w5) = json_roundtrip results w4;
                           w6 = emit (ConsoleLog [Shown (Some data)]) w5;
                           (b, w7) = fresh w6;
                           (r', w8) = new_object
                              ((obj_at w7 r)(''response'' \<mapsto> Val (JObj b [(''body'', data)]))) w7
                       in (Resolved r', w8)))
         | _ \<Rightarrow> (Rejected TypeError, w2))"

text \<open>
  Evaluating the call \<open>sqlString(fun)\<close> looks the binding up: a function is applied, a
  string is not callable (TypeError).
\<close>

definition call_sqlString :: "'f env \<Rightarrow> world \<Rightarrow> (jsobj \<Rightarrow> string) \<Rightarrow> reason + operation" where
  "call_sqlString env w render =
     (case sqlString_binding w of
        ExportedFunction \<Rightarrow> Inr (sqlString env render)
      | Text s \<Rightarrow> Inl TypeError)"

section \<open>Pipelines of the adaptor's Operations, and what a run shows\<close>

text \<open>
  A zero-side-effect Operation computes the next State from the State it receives and
  does nothing else (language-common's \<open>alterState\<close> with a pure function).
\<close>

definition pure_operation :: "(jsobj \<Rightarrow> jsobj) \<Rightarrow> operation" where
  "pure_operation f r w = (let (r', w') = new_object (f (obj_at w r)) w in (Resolved r', w'))"

datatype 'f userop =
    Insert string 'f
  | Upsert string 'f
  | SqlString "jsobj \<Rightarrow> string"
  | Pure "jsobj \<Rightarrow> jsobj"

fun operation_of :: "'f env \<Rightarrow> 'f userop \<Rightarrow> operation" where
  "operation_of env (Insert table fieldsSpec) = insert_op env table fieldsSpec"
| "operation_of env (Upsert table fieldsSpec) = upsert env table fieldsSpec"
| "operation_of env (SqlString render) = sqlString env render"
| "operation_of env (Pure f) = pure_operation f"

text \<open>The events a run added to the trace.\<close>

definition new_events :: "world \<Rightarrow> world \<Rightarrow> event list" where
  "new_events w w' = drop (length (trace w)) (trace w')"

fun closes :: "event list \<Rightarrow> nat list" where
  "closes [] = []"
| "closes (ConnEnd c # es) = c # closes es"
| "closes (e # es) = closes es"

fun statements :: "event list \<Rightarrow> string list" where
  "statements [] = []"
| "statements (ConnQuery c q # es) = q # statements es"
| "statements (e # es) = statements es"

text \<open>The errors the driver reported: the truthy first arguments of the callbacks.\<close>

fun query_errors :: "event list \<Rightarrow> jsval list" where
  "query_errors [] = []"
| "query_errors (QueryCallback err results flds # es) =
     (if truthy err then err # query_errors es else query_errors es)"
| "query_errors (e # es) = query_errors es"

text \<open>The arguments the driver passed to the callbacks.\<close>

fun callbacks :: "event list \<Rightarrow> (jsval \<times> jsval \<times> jsval option) list" where
  "callbacks [] = []"
| "callbacks (QueryCallback err results flds # es) = (err, results, flds) # callbacks es"
| "callbacks (e # es) = callbacks es"

fun opened :: "event list \<Rightarrow> nat list" where
  "opened [] = []"
| "opened (ConnConnect c # es) = c # opened es"
| "opened (e # es) = opened es"

text \<open>The \<open>connection\<close> property of the State a pending result resolved to.\<close>

fun connection_of :: "outcome \<times> world \<Rightarrow> slot option" where
  "connection_of (Resolved r, w) = obj_at w r ''connection''"
| "connection_of (Rejected e, w) = None"

fun resolved :: "outcome \<times> world \<Rightarrow> bool" where
  "resolved (Resolved r, w) = True"
| "resolved (Rejected e, w) = False"

fun state_of :: "outcome \<times> world \<Rightarrow> jsobj" where
  "state_of (Resolved r, w) = obj_at w r"
| "state_of (Rejected e, w) = Map.empty"

text \<open>
  An Operation has zero side effects and computes \<open>f\<close> when, on every State and in every
  world, it resolves to a State with the contents \<open>f\<close> gives and leaves the trace alone.
\<close>

definition zero_side_effect :: "operation \<Rightarrow> (jsobj \<Rightarrow> jsobj) \<Rightarrow> bool" where
  "zero_side_effect operation f =
     (\<forall>r w. resolved (operation r w) \<and> state_of (operation r w) = f (obj_at w r)
            \<and> trace (snd (operation r w)) = trace w)"

text \<open>What one query-executing Operation does, given the statement it sends.\<close>

definition query_shape ::
  "'f env \<Rightarrow> string \<Rightarrow> nat \<Rightarrow> world \<Rightarrow> outcome \<times> world \<Rightarrow> bool" where
  "query_shape env q r w x =
     (case obj_at w r ''connection'' of
        Some (Connection c) \<Rightarrow>
          (\<exists>err results flds evs.
             trace (snd x) = trace w @ evs \<and>
             statements evs = [q] \<and>
             callbacks evs = [(err, results, flds)] \<and>
             (if truthy err
              then fst x = Rejected (Err err) \<and> closes evs = [c]
              else closes evs = [] \<and> (\<exists>r'. fst x = Resolved r')))
      | _ \<Rightarrow> fst x = Rejected TypeError \<and>
             (\<exists>evs. trace (snd x) = trace w @ evs \<and> statements evs = [] \<and>
                    callbacks evs = [] \<and> closes evs = []))"

text \<open>What a run shows of the driver's errors and of the calls of \<open>end\<close>.\<close>

definition quiet_or_failed :: "world \<Rightarrow> outcome \<times> world \<Rightarrow> bool" where
  "quiet_or_failed w x =
     (\<exists>evs. trace (snd x) = trace w @ evs \<and>
        (closes evs = [] \<and> query_errors evs = [] \<or>
         (\<exists>e. fst x = Rejected (Err e) \<and> length (closes evs) = 1 \<and> query_errors evs = [e])))"

definition errors_close_once :: "world \<Rightarrow> outcome \<times> world \<Rightarrow> bool" where
  "errors_close_once w x =
     (\<exists>evs. trace (snd x) = trace w @ evs \<and>
        (query_errors evs = [] \<or>
         (\<exists>e. query_errors evs = [e] \<and> fst x = Rejected (Err e) \<and> length (closes evs) = 1)))"

text \<open>
  What a query-executing Operation on a connected State leaves behind: one callback; on a
  truthy err the rejection and an untouched store, otherwise a new object at the end of
  the store that differs from the State it received in \<open>response\<close> only.
\<close>

definition connected_result ::
  "nat \<Rightarrow> world \<Rightarrow> outcome \<times> world \<Rightarrow> jsval \<times> jsval \<times> jsval option \<Rightarrow> jsval \<Rightarrow> bool" where
  "connected_result r w x reply data =
     (\<exists>evs. trace (snd x) = trace w @ evs \<and> callbacks evs = [reply] \<and>
        (if truthy (fst reply)
         then fst x = Rejected (Err (fst reply)) \<and> heap (snd x) = heap w
         else fst x = Resolved (length (heap w)) \<and>
              (\<exists>b new. heap (snd x) = heap w @ [new] \<and>
                 new ''response'' = Some (Val (JObj b [(''body'', data)])) \<and>
                 (\<forall>k. k \<noteq> ''response'' \<longrightarrow> new k = obj_at w r k))))"

text \<open>
  The result of an Operation is a new State object: a copy of the State it received in
  which at most the property \<open>field\<close> differs, added at the end of the store, with every
  object that was there left as it was. A rejection leaves the store alone.
\<close>

definition fresh_copy :: "string \<Rightarrow> nat \<Rightarrow> world \<Rightarrow> outcome \<times> world \<Rightarrow> bool" where
  "fresh_copy field r w x =
     (case x of
        (Resolved r', w') \<Rightarrow>
          r' = length (heap w) \<and>
          (\<exists>new. heap w' = heap w @ [new] \<and> (\<forall>k. k \<noteq> field \<longrightarrow> new k = obj_at w r k))
      | (Rejected e, w') \<Rightarrow> heap w' = heap w)"

text \<open>
  An Operation keeps the connection when, run on a State of the store, it resolves only
  to a State of the store with the same \<open>connection\<close> property.
\<close>

definition keeps_connection :: "operation \<Rightarrow> bool" where
  "keeps_connection operation =
     (\<forall>r w. r < length (heap w) \<longrightarrow>
        (case operation r w of
           (Resolved r', w') \<Rightarrow>
             r' < length (heap w') \<and> obj_at w' r' ''connection'' = obj_at w r ''connection''
         | (Rejected e, w') \<Rightarrow> True))"

text \<open>A pending result resolved to a State of the store whose \<open>connection\<close> is the connection \<open>c\<close>.\<close>

fun holds_connection :: "nat \<Rightarrow> outcome \<times> world \<Rightarrow> bool" where
  "holds_connection c (Resolved r, w) =
     (r < length (heap w) \<and> obj_at w r ''connection'' = Some (Connection c))"
| "holds_connection c (Rejected e, w) = False"



section \<open>Test doubles for the collaborators\<close>

text \<open>
  A query builder, a formatter and a driver to run the Operations on. The builder renders
  the way squel does for simple names: back-quoted field names, one placeholder per
  value, no field list for an INSERT without fields, no table name after UPDATE for the
  table \<open>''\<close>, and for an UPDATE without fields the error \<open>set() needs to be called\<close> (an
  Error is represented by its message). The formatter puts the escaped values in place of
  the placeholders, as mysql does for numbers, strings, booleans and null. The driver
  fails on one statement and answers every other one with the rows \<open>[{1: 1}]\<close>. The field
  specification of the double is the field mapping itself, with nothing to resolve.
\<close>

fun join :: "string \<Rightarrow> string list \<Rightarrow> string" where
  "join sep [] = []"
| "join sep [x] = x"
| "join sep (x # y # xs) = x @ sep @ join sep (y # xs)"

definition mock_insert :: "string \<Rightarrow> (string \<times> jsval) list \<Rightarrow> string \<times> jsval list" where
  "mock_insert table valuesObj =
     (if valuesObj = [] then (''INSERT INTO '' @ table, [])
      else (''INSERT INTO '' @ table @ '' (''
              @ join '', '' (map (\<lambda>p. ''`'' @ fst p @ ''`'') valuesObj)
              @ '') VALUES ('' @ join '', '' (map (\<lambda>p. ''?'') valuesObj) @ '')'',
            map snd valuesObj))"

definition mock_update :: "string \<Rightarrow> (string \<times> jsval) list \<Rightarrow> jsval + (string \<times> jsval list)" where
  "mock_update table valuesObj =
     (if valuesObj = [] then Inl (JStr ''set() needs to be called'')
      else Inr (''UPDATE'' @ (if table = [] then [] else '' '' @ table) @ '' SET ''
                  @ join '', '' (map (\<lambda>p. ''`'' @ fst p @ ''` = ?'') valuesObj),
                map snd valuesObj))"

fun digits :: "nat \<Rightarrow> string" where
  "digits n =
     (if n < 10 then [''0123456789'' ! n]
      else digits (n div 10) @ [''0123456789'' ! (n mod 10)])"

definition escape_char :: "char \<Rightarrow> string" where
  "escape_char c =
     (if c = CHR 0x00 then [CHR 0x5C, CHR ''0'']
      else if c = CHR 0x08 then [CHR 0x5C, CHR ''b'']
      else if c = CHR 0x09 then [CHR 0x5C, CHR ''t'']
      else if c = CHR 0x0A then [CHR 0x5C, CHR ''n'']
      else if c = CHR 0x0D then [CHR 0x5C, CHR ''r'']
      else if c = CHR 0x1A then [CHR 0x5C, CHR ''Z'']
      else if c = CHR 0x22 then [CHR 0x5C, CHR 0x22]
      else if c = CHR 0x27 then [CHR 0x5C, CHR 0x27]
      else if c = CHR 0x5C then [CHR 0x5C, CHR 0x5C]
      else [c])"

fun mock_escape :: "jsval \<Rightarrow> string" where
  "mock_escape (JNum n) = (if n < 0 then ''-'' @ digits (nat (- n)) else digits (nat n))"
| "mock_escape (JStr s) = [CHR 0x27] @ concat (map escape_char s) @ [CHR 0x27]"
| "mock_escape (JBool b) = (if b then ''true'' else ''false'')"
| "mock_escape v = ''NULL''"

fun mock_format :: "string \<Rightarrow> jsval list \<Rightarrow> string" where
  "mock_format [] vs = []"
| "mock_format (c # cs) [] = c # cs"
| "mock_format (c # cs) (v # vs) =
     (if c = CHR ''?'' then mock_escape v @ mock_format cs vs else c # mock_format cs (v # vs))"

definition mock_rows :: jsval where
  "mock_rows = JArr 100 [JObj 101 [(''1'', JNum 1)]]"

definition mock_query :: "event list \<Rightarrow> nat \<Rightarrow> string \<Rightarrow> jsval \<times> jsval \<times> jsval option" where
  "mock_query history c q =
     (if q = ''SELECT * FROM missing'' then (JStr ''ER_NO_SUCH_TABLE'', JNull, None)
      else (JNull, mock_rows, None))"

definition mock_env :: "(string \<times> jsval) list env" where
  "mock_env = \<lparr> expandReferences = (\<lambda>fieldsSpec state. fieldsSpec),
                squel_insert = mock_insert,
                squel_update = mock_update,
                mysql_format = mock_format,
                mysql_query = mock_query \<rparr>"

text \<open>A driver that answers with one row holding a DATETIME column, which mysql returns as a Date.\<close>

definition dated_rows :: jsval where
  "dated_rows = JArr 100 [JObj 101 [(''d'', JDate 102 ''2020-01-01T00:00:00.000Z'')]]"

definition dated_env :: "(string \<times> jsval) list env" where
  "dated_env = mock_env\<lparr> mysql_query := (\<lambda>history c q. (JNull, dated_rows, None)) \<rparr>"

text \<open>A caller's State with a configuration, alone in an otherwise empty world.\<close>

definition mock_configuration :: jsval where
  "mock_configuration =
     JObj 0 [(''host'', JStr ''localhost''), (''port'', JNum 3306), (''database'', JStr ''db''),
             (''user'', JStr ''u''), (''password'', JStr ''p'')]"

definition mock_state :: jsobj where
  "mock_state = [''configuration'' \<mapsto> Val mock_configuration]"

definition mock_world :: world where
  "mock_world = \<lparr> heap = [mock_state], next_id = 1, trace = [], sqlString_binding = ExportedFunction \<rparr>"

text \<open>A caller's State that already carries a \<open>connection\<close> property.\<close>

definition stale_world :: world where
  "stale_world = \<lparr> heap = [mock_state(''connection'' \<mapsto> Val (JStr ''stale''))], next_id = 1,
                   trace = [], sqlString_binding = ExportedFunction \<rparr>"

section \<open>The executor: order, abort, fold\<close>

lemma zero_side_effect_pure: "zero_side_effect (pure_operation f) f"
  by (simp add: zero_side_effect_def pure_operation_def new_object_def obj_at_def)

lemma commonExecute_steps:
  "commonExecute ops r w = (if steps ops r w = [] then (Resolved r, w) else last (steps ops r w))"
proof (induction ops arbitrary: r w)
  case Nil
  show ?case by simp
next
  case (Cons operation ops)
  show ?case
  proof (cases "operation r w")
    case (Pair out w')
    show ?thesis
    proof (cases out)
      case (Resolved r')
      with Pair Cons[of r' w'] show ?thesis by simp
    next
      case (Rejected e)
      with Pair show ?thesis by simp
    qed
  qed
qed

lemma steps_chain:
  "i < length (steps ops r w) \<Longrightarrow>
   steps ops r w ! i = apply_to (ops ! i) (input_of (steps ops r w) r w i)"
proof (induction ops arbitrary: r w i)
  case Nil
  then show ?case by simp
next
  case (Cons operation ops)
  obtain out w' where ow: "operation r w = (out, w')" by (cases "operation r w")
  show ?case
  proof (cases out)
    case (Rejected e)
    with ow Cons.prems show ?thesis by (simp add: input_of_def apply_to_def)
  next
    case (Resolved r')
    show ?thesis
    proof (cases i)
      case 0
      with ow Resolved show ?thesis by (simp add: input_of_def apply_to_def)
    next
      case (Suc j)
      with Cons.prems ow Resolved have j: "j < length (steps ops r' w')" by simp
      from Cons.IH[OF j] have
        "steps ops r' w' ! j = apply_to (ops ! j) (input_of (steps ops r' w') r' w' j)" .
      moreover have "input_of (steps (operation # ops) r w) r w (Suc j)
                     = input_of (steps ops r' w') r' w' j"
        using ow Resolved by (cases j) (simp_all add: input_of_def)
      ultimately show ?thesis using ow Resolved Suc by simp
    qed
  qed
qed

lemma steps_rejected_last:
  "i < length (steps ops r w) \<Longrightarrow> \<not> resolved (steps ops r w ! i) \<Longrightarrow>
   length (steps ops r w) = Suc i"
proof (induction ops arbitrary: r w i)
  case Nil
  then show ?case by simp
next
  case (Cons operation ops)
  obtain out w' where ow: "operation r w = (out, w')" by (cases "operation r w")
  show ?case
  proof (cases out)
    case (Rejected e)
    with ow Cons.prems show ?thesis by simp
  next
    case (Resolved r')
    show ?thesis
    proof (cases i)
      case 0
      with ow Resolved Cons.prems show ?thesis by simp
    next
      case (Suc j)
      with Cons.prems ow Resolved have "j < length (steps ops r' w')"
        and "\<not> resolved (steps ops r' w' ! j)" by simp_all
      from Cons.IH[OF this] show ?thesis using ow Resolved Suc by simp
    qed
  qed
qed

lemma steps_resolved_full:
  "resolved (commonExecute ops r w) \<Longrightarrow> length (steps ops r w) = length ops"
proof (induction ops arbitrary: r w)
  case Nil
  show ?case by simp
next
  case (Cons operation ops)
  obtain out w' where ow: "operation r w = (out, w')" by (cases "operation r w")
  show ?case
  proof (cases out)
    case (Rejected e)
    with ow Cons.prems show ?thesis by simp
  next
    case (Resolved r')
    with ow Cons.prems have "resolved (commonExecute ops r' w')" by simp
    from Cons.IH[OF this] show ?thesis using ow Resolved by simp
  qed
qed

lemma steps_resolved_all:
  assumes "resolved (commonExecute ops r w)" and "i < length ops"
  shows "resolved (steps ops r w ! i)"
proof (rule ccontr)
  assume n: "\<not> resolved (steps ops r w ! i)"
  have len: "length (steps ops r w) = length ops" using assms(1) by (rule steps_resolved_full)
  with assms(2) have i: "i < length (steps ops r w)" by simp
  from steps_rejected_last[OF i n] len have "length ops = Suc i" by simp
  with len have l: "length (steps ops r w) = Suc i" by simp
  then have ne: "steps ops r w \<noteq> []" by auto
  from l ne have "last (steps ops r w) = steps ops r w ! i" by (simp add: last_conv_nth)
  with assms(1) n ne show False by (simp add: commonExecute_steps)
qed


lemma zero_side_effect_run:
  "list_all2 zero_side_effect ops fs \<Longrightarrow>
   resolved (commonExecute ops r w) \<and>
   state_of (commonExecute ops r w) = fold (\<lambda>f s. f s) fs (obj_at w r) \<and>
   trace (snd (commonExecute ops r w)) = trace w"
proof (induction ops fs arbitrary: r w rule: list_all2_induct)
  case Nil
  show ?case by simp
next
  case (Cons operation ops f fs)
  from Cons.hyps(1) have z: "resolved (operation r w)"
    "state_of (operation r w) = f (obj_at w r)" "trace (snd (operation r w)) = trace w"
    by (simp_all add: zero_side_effect_def)
  obtain out w' where ow: "operation r w = (out, w')" by (cases "operation r w")
  with z(1) obtain r' where out: "out = Resolved r'" by (cases out) simp_all
  from z ow out have "obj_at w' r' = f (obj_at w r)" "trace w' = trace w" by simp_all
  with Cons.IH[of r' w'] ow out show ?case by simp
qed

lemma zero_side_effect_prefix:
  "list_all2 zero_side_effect ops fs \<Longrightarrow> i < length ops \<Longrightarrow>
   state_of (steps ops r w ! i) = fold (\<lambda>f s. f s) (take (Suc i) fs) (obj_at w r)"
proof (induction ops fs arbitrary: r w i rule: list_all2_induct)
  case Nil
  then show ?case by simp
next
  case (Cons operation ops f fs)
  from Cons.hyps(1) have z: "resolved (operation r w)"
    "state_of (operation r w) = f (obj_at w r)"
    by (simp_all add: zero_side_effect_def)
  obtain out w' where ow: "operation r w = (out, w')" by (cases "operation r w")
  with z(1) obtain r' where out: "out = Resolved r'" by (cases out) simp_all
  from z ow out have st: "obj_at w' r' = f (obj_at w r)" by simp
  show ?case
  proof (cases i)
    case 0
    with ow out st show ?thesis by simp
  next
    case (Suc j)
    with Cons.prems have "j < length ops" by simp
    from Cons.IH[OF this, of r' w'] ow out st Suc show ?thesis by simp
  qed
qed

text \<open>
  Claim C5. For N zero-side-effect Operations the executor resolves to the State obtained
  by folding the Operations left to right over the initial State; the Operation at
  position \<open>i\<close> is applied to what position \<open>i - 1\<close> produced (to the initial State only
  at position 0), and after it the State is the fold of the first \<open>i + 1\<close> functions. With
  no Operation the executor returns the initial State, with one it is that Operation.
\<close>

theorem executor_folds_left_to_right:
  "commonExecute [] r w = (Resolved r, w) \<and>
   commonExecute [operation] r w = operation r w \<and>
   (list_all2 zero_side_effect operations fs \<longrightarrow>
      resolved (commonExecute operations r w) \<and>
      state_of (commonExecute operations r w) = fold (\<lambda>f s. f s) fs (obj_at w r) \<and>
      trace (snd (commonExecute operations r w)) = trace w \<and>
      length (steps operations r w) = length operations \<and>
      (\<forall>i<length operations.
         steps operations r w ! i =
           apply_to (operations ! i) (input_of (steps operations r w) r w i) \<and>
         state_of (steps operations r w ! i) =
           fold (\<lambda>f s. f s) (take (Suc i) fs) (obj_at w r)))"
proof (intro conjI impI)
  show "commonExecute [] r w = (Resolved r, w)" by simp
  show "commonExecute [operation] r w = operation r w"
    by (cases "operation r w"; cases "fst (operation r w)") auto
next
  assume a: "list_all2 zero_side_effect operations fs"
  from zero_side_effect_run[OF a, of r w]
  show res: "resolved (commonExecute operations r w)"
    and "state_of (commonExecute operations r w) = fold (\<lambda>f s. f s) fs (obj_at w r)"
    and "trace (snd (commonExecute operations r w)) = trace w"
    by simp_all
  from res show len: "length (steps operations r w) = length operations"
    by (rule steps_resolved_full)
  show "\<forall>i<length operations.
         steps operations r w ! i =
           apply_to (operations ! i) (input_of (steps operations r w) r w i) \<and>
         state_of (steps operations r w ! i) =
           fold (\<lambda>f s. f s) (take (Suc i) fs) (obj_at w r)"
    using len steps_chain[of _ operations r w] zero_side_effect_prefix[OF a, of _ r w]
    by simp
qed

theorem executor_folds_left_to_right_witness:
  "list_all2 zero_side_effect
     [pure_operation (\<lambda>s. s(''data'' \<mapsto> Val (JNum 1))), pure_operation (\<lambda>s. s(''configuration'' := None))]
     [\<lambda>s. s(''data'' \<mapsto> Val (JNum 1)), \<lambda>s. s(''configuration'' := None)] \<and>
   state_of (commonExecute
     [pure_operation (\<lambda>s. s(''data'' \<mapsto> Val (JNum 1))), pure_operation (\<lambda>s. s(''configuration'' := None))]
     0 mock_world) = [''data'' \<mapsto> Val (JNum 1)] \<and>
   length (steps
     [pure_operation (\<lambda>s. s(''data'' \<mapsto> Val (JNum 1))), pure_operation (\<lambda>s. s(''configuration'' := None))]
     0 mock_world) = 2"
proof -
  have h: "list_all2 zero_side_effect
     [pure_operation (\<lambda>s. s(''data'' \<mapsto> Val (JNum 1))), pure_operation (\<lambda>s. s(''configuration'' := None))]
     [\<lambda>s. s(''data'' \<mapsto> Val (JNum 1)), \<lambda>s. s(''configuration'' := None)]"
    by (simp add: zero_side_effect_pure)
  have m: "obj_at mock_world 0 = [''configuration'' \<mapsto> Val mock_configuration]"
    by (simp add: obj_at_def mock_world_def mock_state_def)
  show ?thesis
    using h m executor_folds_left_to_right[of 0 mock_world connect
      "[pure_operation (\<lambda>s. s(''data'' \<mapsto> Val (JNum 1))), pure_operation (\<lambda>s. s(''configuration'' := None))]"
      "[\<lambda>s. s(''data'' \<mapsto> Val (JNum 1)), \<lambda>s. s(''configuration'' := None)]"]
    by (auto simp: fun_eq_iff)
qed

text \<open>
  Claim C4. If the Operation at position \<open>i\<close> of the composed sequence is invoked and
  rejects, the record of invoked Operations ends at \<open>i\<close>: no later Operation, the appended
  disconnect and cleanupState included, is invoked. The pending result of \<open>execute\<close> is
  that rejection, with the world as the failing Operation left it.
\<close>

theorem rejection_aborts_the_run:
  assumes "merged_state r w = (r0, w0)"
    and "i < length (steps (pipeline operations) r0 w0)"
    and "steps (pipeline operations) r0 w0 ! i = (Rejected e, w')"
  shows "length (steps (pipeline operations) r0 w0) = Suc i \<and>
         execute operations r w = (Rejected e, w') \<and>
         commonExecute (pipeline operations) r0 w0 = (Rejected e, w')"
proof -
  let ?log = "steps (pipeline operations) r0 w0"
  from assms(3) have "\<not> resolved (?log ! i)" by simp
  from steps_rejected_last[OF assms(2) this] have len: "length ?log = Suc i" .
  then have ne: "?log \<noteq> []" by auto
  from len ne have "last ?log = ?log ! i" by (simp add: last_conv_nth)
  with ne assms(3) have ce: "commonExecute (pipeline operations) r0 w0 = (Rejected e, w')"
    by (simp add: commonExecute_steps)
  with assms(1) have "execute operations r w = (Rejected e, w')"
    by (simp add: execute_def)
  with len ce show ?thesis by simp
qed

theorem rejection_aborts_the_run_witness:
  "1 < length (steps (pipeline [sqlString mock_env (\<lambda>s. ''SELECT * FROM missing''),
                                insert_op mock_env ''t'' [(''a'', JNum 1)]])
                 (fst (merged_state 0 mock_world)) (snd (merged_state 0 mock_world))) \<and>
   fst (steps (pipeline [sqlString mock_env (\<lambda>s. ''SELECT * FROM missing''),
                         insert_op mock_env ''t'' [(''a'', JNum 1)]])
          (fst (merged_state 0 mock_world)) (snd (merged_state 0 mock_world)) ! 1)
     = Rejected (Err (JStr ''ER_NO_SUCH_TABLE'')) \<and>
   length (steps (pipeline [sqlString mock_env (\<lambda>s. ''SELECT * FROM missing''),
                            insert_op mock_env ''t'' [(''a'', JNum 1)]])
             (fst (merged_state 0 mock_world)) (snd (merged_state 0 mock_world))) = 2 \<and>
   fst (execute [sqlString mock_env (\<lambda>s. ''SELECT * FROM missing''),
                 insert_op mock_env ''t'' [(''a'', JNum 1)]] 0 mock_world)
     = Rejected (Err (JStr ''ER_NO_SUCH_TABLE''))"
proof -
  let ?ops = "[sqlString mock_env (\<lambda>s. ''SELECT * FROM missing''),
               insert_op mock_env ''t'' [(''a'', JNum 1)]]"
  let ?r0 = "fst (merged_state 0 mock_world)"
  let ?w0 = "snd (merged_state 0 mock_world)"
  have m: "merged_state 0 mock_world = (?r0, ?w0)" by simp
  have i: "1 < length (steps (pipeline ?ops) ?r0 ?w0)"
    by code_simp
  have f: "fst (steps (pipeline ?ops) ?r0 ?w0 ! 1) = Rejected (Err (JStr ''ER_NO_SUCH_TABLE''))"
    by code_simp
  then obtain w' where
    s: "steps (pipeline ?ops) ?r0 ?w0 ! 1 = (Rejected (Err (JStr ''ER_NO_SUCH_TABLE'')), w')"
    by (cases "steps (pipeline ?ops) ?r0 ?w0 ! 1") simp
  from rejection_aborts_the_run[OF m i s] i f show ?thesis by simp
qed

lemma resolved_run_steps:
  assumes "commonExecute (pipeline operations) r0 w0 = (Resolved r', w')"
  shows "length (steps (pipeline operations) r0 w0) = length operations + 3 \<and>
         steps (pipeline operations) r0 w0 ! 0 = connect r0 w0 \<and>
         (\<forall>i<length operations.
            steps (pipeline operations) r0 w0 ! Suc i =
              apply_to (operations ! i) (steps (pipeline operations) r0 w0 ! i)) \<and>
         steps (pipeline operations) r0 w0 ! (length operations + 1) =
           apply_to disconnect (steps (pipeline operations) r0 w0 ! length operations) \<and>
         steps (pipeline operations) r0 w0 ! (length operations + 2) =
           apply_to cleanupState (steps (pipeline operations) r0 w0 ! (length operations + 1)) \<and>
         steps (pipeline operations) r0 w0 ! (length operations + 2) = (Resolved r', w') \<and>
         (\<forall>i<length operations + 3. resolved (steps (pipeline operations) r0 w0 ! i))"
proof -
  let ?ops = "pipeline operations"
  let ?log = "steps ?ops r0 w0"
  let ?n = "length operations"
  note ce = assms
  then have res: "resolved (commonExecute ?ops r0 w0)" by simp
  have lp: "length ?ops = ?n + 3" by (simp add: pipeline_def)
  from steps_resolved_full[OF res] lp have len: "length ?log = ?n + 3" by simp
  have chain: "?log ! i = apply_to (?ops ! i) (input_of ?log r0 w0 i)" if "i < ?n + 3" for i
    using steps_chain[of i ?ops r0 w0] that len by simp
  have c0: "?log ! 0 = connect r0 w0"
    using chain[of 0] by (simp add: input_of_def apply_to_def pipeline_def)
  have cu: "\<forall>i<?n. ?log ! Suc i = apply_to (operations ! i) (?log ! i)"
  proof (intro allI impI)
    fix i assume "i < ?n"
    then show "?log ! Suc i = apply_to (operations ! i) (?log ! i)"
      using chain[of "Suc i"] by (simp add: input_of_def pipeline_def nth_append)
  qed
  have cd: "?log ! (?n + 1) = apply_to disconnect (?log ! ?n)"
    using chain[of "?n + 1"] by (simp add: input_of_def pipeline_def nth_append)
  have cc: "?log ! (?n + 2) = apply_to cleanupState (?log ! (?n + 1))"
    using chain[of "?n + 2"] by (simp add: input_of_def pipeline_def nth_append)
  from len have ne: "?log \<noteq> []" by auto
  from len ne have "last ?log = ?log ! (?n + 2)" by (simp add: last_conv_nth)
  with ce ne have fin: "?log ! (?n + 2) = (Resolved r', w')" by (simp add: commonExecute_steps)
  have allres: "\<forall>i<?n + 3. resolved (?log ! i)"
    using steps_resolved_all[OF res] lp by simp
  show ?thesis using len c0 cu cd cc fin allres by simp
qed

text \<open>
  Claim C3. On the success path \<open>execute\<close> runs connect, the caller's Operations,
  disconnect and cleanupState in this order, each exactly once: position 0 is connect on
  the merged State, position \<open>i + 1\<close> is the caller's Operation \<open>i\<close> on what position \<open>i\<close>
  produced, then disconnect on the result of the last of them, then cleanupState, whose
  result is the result of \<open>execute\<close>.
\<close>

theorem execute_runs_in_order:
  assumes "merged_state r w = (r0, w0)"
    and "execute operations r w = (Resolved r', w')"
  shows "pipeline operations = connect # operations @ [disconnect, cleanupState] \<and>
         length (steps (pipeline operations) r0 w0) = length operations + 3 \<and>
         steps (pipeline operations) r0 w0 ! 0 = connect r0 w0 \<and>
         (\<forall>i<length operations.
            steps (pipeline operations) r0 w0 ! Suc i =
              apply_to (operations ! i) (steps (pipeline operations) r0 w0 ! i)) \<and>
         steps (pipeline operations) r0 w0 ! (length operations + 1) =
           apply_to disconnect (steps (pipeline operations) r0 w0 ! length operations) \<and>
         steps (pipeline operations) r0 w0 ! (length operations + 2) =
           apply_to cleanupState (steps (pipeline operations) r0 w0 ! (length operations + 1)) \<and>
         steps (pipeline operations) r0 w0 ! (length operations + 2) = (Resolved r', w') \<and>
         (\<forall>i<length operations + 3. resolved (steps (pipeline operations) r0 w0 ! i))"
proof -
  from assms have "commonExecute (pipeline operations) r0 w0 = (Resolved r', w')"
    by (simp add: execute_def)
  note run = resolved_run_steps[OF this]
  have "pipeline operations = connect # operations @ [disconnect, cleanupState]"
    by (simp add: pipeline_def)
  from this run show ?thesis by (rule conjI)
qed

theorem execute_runs_in_order_witness:
  "fst (execute [sqlString mock_env (\<lambda>s. ''SELECT 1'')] 0 mock_world) = Resolved 3 \<and>
   length (steps (pipeline [sqlString mock_env (\<lambda>s. ''SELECT 1'')])
             (fst (merged_state 0 mock_world)) (snd (merged_state 0 mock_world))) = 4 \<and>
   steps (pipeline [sqlString mock_env (\<lambda>s. ''SELECT 1'')])
     (fst (merged_state 0 mock_world)) (snd (merged_state 0 mock_world)) ! 0
     = connect (fst (merged_state 0 mock_world)) (snd (merged_state 0 mock_world)) \<and>
   steps (pipeline [sqlString mock_env (\<lambda>s. ''SELECT 1'')])
     (fst (merged_state 0 mock_world)) (snd (merged_state 0 mock_world)) ! 3
     = execute [sqlString mock_env (\<lambda>s. ''SELECT 1'')] 0 mock_world"
proof -
  let ?ops = "[sqlString mock_env (\<lambda>s. ''SELECT 1'')]"
  let ?r0 = "fst (merged_state 0 mock_world)"
  let ?w0 = "snd (merged_state 0 mock_world)"
  have m: "merged_state 0 mock_world = (?r0, ?w0)" by simp
  have f: "fst (execute ?ops 0 mock_world) = Resolved 3" by code_simp
  then have e: "execute ?ops 0 mock_world = (Resolved 3, snd (execute ?ops 0 mock_world))"
    by (simp add: prod_eq_iff)
  note t = execute_runs_in_order[OF m e, THEN conjunct2]
  from t[THEN conjunct1]
  have l: "length (steps (pipeline ?ops) ?r0 ?w0) = 4" by simp
  note c = t[THEN conjunct2, THEN conjunct1]
  from t[THEN conjunct2, THEN conjunct2, THEN conjunct2, THEN conjunct2, THEN conjunct2,
         THEN conjunct1]
  have "steps (pipeline ?ops) ?r0 ?w0 ! 3 = (Resolved 3, snd (execute ?ops 0 mock_world))"
    by (simp add: eval_nat_numeral)
  with e have z: "steps (pipeline ?ops) ?r0 ?w0 ! 3 = execute ?ops 0 mock_world" by simp
  from f l c z show ?thesis by blast
qed

section \<open>Events of the Operations and of a run\<close>

lemma closes_append: "closes (xs @ ys) = closes xs @ closes ys"
  by (induction xs rule: closes.induct) simp_all

lemma query_errors_append: "query_errors (xs @ ys) = query_errors xs @ query_errors ys"
  by (induction xs rule: query_errors.induct) simp_all

lemma new_events_append: "trace w' = trace w @ evs \<Longrightarrow> new_events w w' = evs"
  by (simp add: new_events_def)

lemma insert_shape:
  "query_shape env (mysql_format env (fst (squel_insert env table (expandReferences env fieldsSpec (obj_at w r))))
                     (snd (squel_insert env table (expandReferences env fieldsSpec (obj_at w r)))))
     r w (insert_op env table fieldsSpec r w)"
  by (auto simp: query_shape_def insert_op_def connection_query_def Let_def emit_def reserve_def
        fresh_def new_object_def obj_at_def split: option.splits slot.splits prod.splits)


lemma upsert_shape:
  "upsertString env table (expandReferences env fieldsSpec (obj_at w r)) = Inr q \<Longrightarrow>
   query_shape env q r w (upsert env table fieldsSpec r w)"
  by (auto simp: query_shape_def upsert_def connection_query_def Let_def emit_def reserve_def
        fresh_def new_object_def obj_at_def split: option.splits slot.splits prod.splits)

lemma upsert_refused:
  "upsertString env table (expandReferences env fieldsSpec (obj_at w r)) = Inl thrown \<Longrightarrow>
   upsert env table fieldsSpec r w = (Rejected (Err thrown), w)"
  by (simp add: upsert_def Let_def)

lemma sqlString_shape:
  "query_shape env (render (obj_at w r)) r w (sqlString env render r w)"
  by (auto simp: query_shape_def sqlString_def connection_query_def Let_def emit_def reserve_def
        fresh_def new_object_def obj_at_def json_roundtrip_def
        split: option.splits slot.splits prod.splits)

lemma query_errors_callbacks:
  "query_errors evs = filter truthy (map fst (callbacks evs))"
  by (induction evs rule: callbacks.induct) simp_all

lemma query_shape_quiet_or_failed:
  assumes "query_shape env q r w x"
  shows "quiet_or_failed w x"
proof (cases "\<exists>c. obj_at w r ''connection'' = Some (Connection c)")
  case True
  then obtain c where c: "obj_at w r ''connection'' = Some (Connection c)" by blast
  with assms obtain err results flds evs where
    t: "trace (snd x) = trace w @ evs" and cb: "callbacks evs = [(err, results, flds)]" and
    o: "if truthy err then fst x = Rejected (Err err) \<and> closes evs = [c]
        else closes evs = [] \<and> (\<exists>r'. fst x = Resolved r')"
    by (auto simp: query_shape_def)
  from cb have qe: "query_errors evs = (if truthy err then [err] else [])"
    by (simp add: query_errors_callbacks)
  show ?thesis
  proof (cases "truthy err")
    case True
    with o qe t show ?thesis unfolding quiet_or_failed_def by (intro exI[of _ evs]) simp
  next
    case False
    with o qe t show ?thesis unfolding quiet_or_failed_def by (intro exI[of _ evs]) simp
  qed
next
  case False
  with assms have "fst x = Rejected TypeError \<and>
     (\<exists>evs. trace (snd x) = trace w @ evs \<and> statements evs = [] \<and>
            callbacks evs = [] \<and> closes evs = [])"
    by (auto simp: query_shape_def split: option.splits slot.splits)
  then show ?thesis
    unfolding quiet_or_failed_def by (auto simp: query_errors_callbacks)
qed

lemma userop_quiet_or_failed: "quiet_or_failed w (operation_of env u r w)"
proof (cases u)
  case (Insert table fieldsSpec)
  with query_shape_quiet_or_failed[OF insert_shape] show ?thesis by simp
next
  case (Upsert table fieldsSpec)
  show ?thesis
  proof (cases "upsertString env table (expandReferences env fieldsSpec (obj_at w r))")
    case (Inl thrown)
    from upsert_refused[OF this] Upsert show ?thesis
      by (simp add: quiet_or_failed_def)
  next
    case (Inr q)
    from query_shape_quiet_or_failed[OF upsert_shape[OF this]] Upsert show ?thesis by simp
  qed
next
  case (SqlString render)
  with query_shape_quiet_or_failed[OF sqlString_shape] show ?thesis by simp
next
  case (Pure f)
  then show ?thesis
    by (simp add: quiet_or_failed_def pure_operation_def new_object_def)
qed

lemma tail_events:
  "\<exists>evs. trace (snd (commonExecute [disconnect, cleanupState] r w)) = trace w @ evs \<and>
         query_errors evs = []"
  by (auto simp: disconnect_def cleanupState_def emit_def split: option.splits slot.splits)

lemma userops_errors_close_once:
  "errors_close_once w
     (commonExecute (map (operation_of env) us @ [disconnect, cleanupState]) r w)"
proof (induction us arbitrary: r w)
  case Nil
  from tail_events[of r w] show ?case by (auto simp: errors_close_once_def)
next
  case (Cons u us)
  let ?rest = "map (operation_of env) us @ [disconnect, cleanupState]"
  obtain out w1 where x: "operation_of env u r w = (out, w1)"
    by (cases "operation_of env u r w")
  from userop_quiet_or_failed[of w env u r] x obtain evs1 where
    t1: "trace w1 = trace w @ evs1" and
    c1: "closes evs1 = [] \<and> query_errors evs1 = [] \<or>
         (\<exists>e. out = Rejected (Err e) \<and> length (closes evs1) = 1 \<and> query_errors evs1 = [e])"
    by (auto simp: quiet_or_failed_def)
  show ?case
  proof (cases out)
    case (Resolved r1)
    with c1 have q1: "closes evs1 = []" "query_errors evs1 = []" by simp_all
    from Cons.IH[of w1 r1] obtain evs2 where
      t2: "trace (snd (commonExecute ?rest r1 w1)) = trace w1 @ evs2" and
      c2: "query_errors evs2 = [] \<or>
           (\<exists>e. query_errors evs2 = [e] \<and> fst (commonExecute ?rest r1 w1) = Rejected (Err e)
                \<and> length (closes evs2) = 1)"
      by (auto simp: errors_close_once_def)
    have "trace (snd (commonExecute ?rest r1 w1)) = trace w @ (evs1 @ evs2)"
      using t1 t2 by simp
    moreover have "query_errors (evs1 @ evs2) = query_errors evs2"
      "closes (evs1 @ evs2) = closes evs2"
      using q1 by (simp_all add: query_errors_append closes_append)
    ultimately show ?thesis
      using c2 x Resolved unfolding errors_close_once_def
      by (intro exI[of _ "evs1 @ evs2"]) auto
  next
    case (Rejected e)
    from c1 have "query_errors evs1 = [] \<or>
         (\<exists>e. query_errors evs1 = [e] \<and> out = Rejected (Err e) \<and> length (closes evs1) = 1)"
      by blast
    with Rejected t1 x show ?thesis
      unfolding errors_close_once_def by (intro exI[of _ evs1]) simp
  qed
qed

lemma connect_events:
  "\<exists>evs. trace (snd (connect r w)) = trace w @ evs \<and> query_errors evs = [] \<and> closes evs = []"
  by (auto simp: connect_def emit_def fresh_def new_object_def Let_def
        split: option.splits slot.splits jsval.splits)

lemma merged_state_trace: "trace (snd (merged_state r w)) = trace w"
  by (simp add: merged_state_def fresh_def new_object_def)

lemma execute_errors_close_once:
  "errors_close_once w (execute (map (operation_of env) us) r w)"
proof -
  obtain r0 w0 where m: "merged_state r w = (r0, w0)" by (cases "merged_state r w")
  with merged_state_trace[of r w] have t0: "trace w0 = trace w" by simp
  let ?rest = "map (operation_of env) us @ [disconnect, cleanupState]"
  have e: "execute (map (operation_of env) us) r w = commonExecute (connect # ?rest) r0 w0"
    using m by (simp add: execute_def pipeline_def)
  obtain out w1 where c: "connect r0 w0 = (out, w1)" by (cases "connect r0 w0")
  from connect_events[of r0 w0] c obtain evs1 where
    t1: "trace w1 = trace w0 @ evs1" and q1: "query_errors evs1 = []" "closes evs1 = []"
    by auto
  show ?thesis
  proof (cases out)
    case (Rejected x)
    with e c t0 t1 q1 show ?thesis
      unfolding errors_close_once_def by (intro exI[of _ evs1]) simp
  next
    case (Resolved r1)
    from userops_errors_close_once[of w1 env us r1] obtain evs2 where
      t2: "trace (snd (commonExecute ?rest r1 w1)) = trace w1 @ evs2" and
      c2: "query_errors evs2 = [] \<or>
           (\<exists>e. query_errors evs2 = [e] \<and> fst (commonExecute ?rest r1 w1) = Rejected (Err e)
                \<and> length (closes evs2) = 1)"
      by (auto simp: errors_close_once_def)
    have "trace (snd (commonExecute ?rest r1 w1)) = trace w @ (evs1 @ evs2)"
      using t0 t1 t2 by simp
    moreover have "query_errors (evs1 @ evs2) = query_errors evs2"
      "closes (evs1 @ evs2) = closes evs2"
      using q1 by (simp_all add: query_errors_append closes_append)
    ultimately show ?thesis
      using c2 e c Resolved unfolding errors_close_once_def
      by (intro exI[of _ "evs1 @ evs2"]) auto
  qed
qed

text \<open>
  Claim C2. In every run of \<open>execute\<close> over Operations of the adaptor (insert, upsert,
  sqlString, and zero-side-effect Operations between them) in which the driver reports a
  query error \<open>e\<close>, the pending result rejects with exactly \<open>e\<close>, \<open>e\<close> is the only error
  the driver reported, and over the whole run the connection's \<open>end\<close> is called exactly
  once.
\<close>

theorem query_error_rejects_and_closes_once:
  assumes "execute (map (operation_of env) us) r w = (out, w')"
    and "e \<in> set (query_errors (new_events w w'))"
  shows "out = Rejected (Err e) \<and> query_errors (new_events w w') = [e] \<and>
         length (closes (new_events w w')) = 1"
proof -
  from execute_errors_close_once[of w env us r] assms(1) obtain evs where
    t: "trace w' = trace w @ evs" and
    c: "query_errors evs = [] \<or>
        (\<exists>e. query_errors evs = [e] \<and> out = Rejected (Err e) \<and> length (closes evs) = 1)"
    by (auto simp: errors_close_once_def)
  from t have n: "new_events w w' = evs" by (rule new_events_append)
  with assms(2) c show ?thesis by auto
qed

theorem query_error_rejects_and_closes_once_witness:
  "JStr ''ER_NO_SUCH_TABLE'' \<in> set (query_errors (new_events mock_world
      (snd (execute (map (operation_of mock_env)
         [SqlString (\<lambda>s. ''SELECT * FROM missing''), Insert ''t'' [(''a'', JNum 1)]])
         0 mock_world)))) \<and>
   fst (execute (map (operation_of mock_env)
         [SqlString (\<lambda>s. ''SELECT * FROM missing''), Insert ''t'' [(''a'', JNum 1)]])
         0 mock_world) = Rejected (Err (JStr ''ER_NO_SUCH_TABLE'')) \<and>
   length (closes (new_events mock_world
      (snd (execute (map (operation_of mock_env)
         [SqlString (\<lambda>s. ''SELECT * FROM missing''), Insert ''t'' [(''a'', JNum 1)]])
         0 mock_world)))) = 1"
proof -
  let ?x = "execute (map (operation_of mock_env)
         [SqlString (\<lambda>s. ''SELECT * FROM missing''), Insert ''t'' [(''a'', JNum 1)]])
         0 mock_world"
  have x: "?x = (fst ?x, snd ?x)" by simp
  have h: "JStr ''ER_NO_SUCH_TABLE'' \<in> set (query_errors (new_events mock_world (snd ?x)))"
    by code_simp
  from query_error_rejects_and_closes_once[OF x h] h show ?thesis by simp
qed

section \<open>insert and upsert\<close>




text \<open>
  Claim C10. Whatever State and world the Operation of \<open>insert\<close> runs in, afterwards the
  module binding \<open>sqlString\<close> holds the formatted statement and no longer the exported
  function, so that a call \<open>sqlString(fun)\<close> is a TypeError; none of the other Operations
  of the module assigns the binding.
\<close>

theorem insert_overwrites_the_sqlString_export:
  "sqlString_binding (snd (insert_op env table fieldsSpec r w)) =
     Text (mysql_format env
             (fst (squel_insert env table (expandReferences env fieldsSpec (obj_at w r))))
             (snd (squel_insert env table (expandReferences env fieldsSpec (obj_at w r))))) \<and>
   call_sqlString env (snd (insert_op env table fieldsSpec r w)) render = Inl TypeError \<and>
   sqlString_binding (snd (upsert env table' fieldsSpec' r w)) = sqlString_binding w \<and>
   sqlString_binding (snd (sqlString env render' r w)) = sqlString_binding w \<and>
   sqlString_binding (snd (connect r w)) = sqlString_binding w \<and>
   sqlString_binding (snd (disconnect r w)) = sqlString_binding w \<and>
   sqlString_binding (snd (cleanupState r w)) = sqlString_binding w"
proof (intro conjI)
  show b: "sqlString_binding (snd (insert_op env table fieldsSpec r w)) =
     Text (mysql_format env
             (fst (squel_insert env table (expandReferences env fieldsSpec (obj_at w r))))
             (snd (squel_insert env table (expandReferences env fieldsSpec (obj_at w r)))))"
    by (auto simp: insert_op_def connection_query_def Let_def emit_def reserve_def
        fresh_def new_object_def split: option.splits slot.splits prod.splits)
  then show "call_sqlString env (snd (insert_op env table fieldsSpec r w)) render = Inl TypeError"
    by (simp add: call_sqlString_def)
  show "sqlString_binding (snd (upsert env table' fieldsSpec' r w)) = sqlString_binding w"
    by (auto simp: upsert_def connection_query_def Let_def emit_def reserve_def
        fresh_def new_object_def split: option.splits slot.splits prod.splits sum.splits)
  show "sqlString_binding (snd (sqlString env render' r w)) = sqlString_binding w"
    by (auto simp: sqlString_def connection_query_def Let_def emit_def reserve_def
        fresh_def new_object_def json_roundtrip_def split: option.splits slot.splits prod.splits)
  show "sqlString_binding (snd (connect r w)) = sqlString_binding w"
    by (auto simp: connect_def Let_def emit_def fresh_def new_object_def
        split: option.splits slot.splits jsval.splits)
  show "sqlString_binding (snd (disconnect r w)) = sqlString_binding w"
    by (auto simp: disconnect_def emit_def split: option.splits slot.splits)
  show "sqlString_binding (snd (cleanupState r w)) = sqlString_binding w"
    by (simp add: cleanupState_def)
qed









section \<open>sqlString and the JSON round trip\<close>

lemma fold_max_ge: "n \<le> fold max xs (n::nat)"
proof (induction xs arbitrary: n)
  case Nil
  show ?case by simp
next
  case (Cons x xs)
  have "n \<le> max x n" by simp
  also have "\<dots> \<le> fold max xs (max x n)" by (rule Cons.IH)
  finally show ?case by simp
qed

lemma fold_max_member: "x \<in> set xs \<Longrightarrow> x \<le> fold max xs (n::nat)"
proof (induction xs arbitrary: n)
  case Nil
  then show ?case by simp
next
  case (Cons y ys)
  show ?case
  proof (cases "x = y")
    case True
    have "x \<le> max y n" using True by simp
    also have "\<dots> \<le> fold max ys (max y n)" by (rule fold_max_ge)
    finally show ?thesis by simp
  next
    case False
    with Cons.prems have "x \<in> set ys" by simp
    from Cons.IH[OF this] show ?thesis by simp
  qed
qed

lemma reserve_bounds:
  "next_id w \<le> next_id (reserve js w)" "i \<in> set js \<Longrightarrow> i < next_id (reserve js w)"
proof -
  show "next_id w \<le> next_id (reserve js w)" by (simp add: reserve_def fold_max_ge)
  assume "i \<in> set js"
  then have "Suc i \<in> set (map Suc js)" by simp
  from fold_max_member[OF this, of "next_id w"] show "i < next_id (reserve js w)"
    by (simp add: reserve_def)
qed

lemma parse_stringify:
  "JSON_stringify (fst (JSON_parse t n)) = t"
  "map JSON_stringify (fst (parse_elements ts n)) = ts"
  "map (\<lambda>p. (fst p, JSON_stringify (snd p))) (fst (parse_members ms n)) = ms"
  by (induction t n and ts n and ms n rule: JSON_parse_parse_elements_parse_members.induct)
     (auto split: prod.splits)

lemma parse_plain:
  "plain_data (fst (JSON_parse t n))"
  "list_all plain_data (fst (parse_elements ts n))"
  "list_all (\<lambda>p. plain_data (snd p)) (fst (parse_members ms n))"
  by (induction t n and ts n and ms n rule: JSON_parse_parse_elements_parse_members.induct)
     (auto split: prod.splits)

lemma parse_identities:
  "n \<le> snd (JSON_parse t n) \<and>
   (\<forall>i\<in>set (identities (fst (JSON_parse t n))). n \<le> i \<and> i < snd (JSON_parse t n))"
  "n \<le> snd (parse_elements ts n) \<and>
   (\<forall>v\<in>set (fst (parse_elements ts n)). \<forall>i\<in>set (identities v).
       n \<le> i \<and> i < snd (parse_elements ts n))"
  "n \<le> snd (parse_members ms n) \<and>
   (\<forall>p\<in>set (fst (parse_members ms n)). \<forall>i\<in>set (identities (snd p)).
       n \<le> i \<and> i < snd (parse_members ms n))"
proof (induction t n and ts n and ms n rule: JSON_parse_parse_elements_parse_members.induct)
  case (5 ts n)
  then show ?case by (fastforce split: prod.splits)
next
  case (6 ms n)
  then show ?case by (fastforce split: prod.splits)
next
  case (8 t ts n)
  then show ?case by (fastforce split: prod.splits)
next
  case (10 m ms n)
  then show ?case by (fastforce split: prod.splits)
qed simp_all

lemma revive_stringify: "plain_data v \<Longrightarrow> revive (JSON_stringify v) = erase v"
  by (induction v) (auto simp: list_all_iff)

lemma roundtrip_deep_equal:
  assumes "plain_data v"
  shows "deep_equal (fst (JSON_parse (JSON_stringify v) n)) v"
proof -
  let ?v' = "fst (JSON_parse (JSON_stringify v) n)"
  have "erase ?v' = revive (JSON_stringify ?v')"
    using parse_plain(1)[of "JSON_stringify v" n] by (simp add: revive_stringify)
  also have "\<dots> = revive (JSON_stringify v)" by (simp add: parse_stringify(1))
  also have "\<dots> = erase v" using assms by (rule revive_stringify)
  finally show ?thesis by (simp add: deep_equal_def)
qed


lemma reserve_fields [simp]:
  "trace (reserve js w) = trace w" "heap (reserve js w) = heap w"
  "sqlString_binding (reserve js w) = sqlString_binding w"
  by (simp_all add: reserve_def)

lemma sqlString_connected:
  assumes "obj_at w r ''connection'' = Some (Connection c)"
  shows "\<exists>reply n. connected_result r w (sqlString env render r w) reply
                      (fst (JSON_parse (JSON_stringify (fst (snd reply))) n)) \<and>
                    (\<forall>i\<in>set (identities (fst (snd reply))). i < n)"
proof -
  let ?body = "render (obj_at w r)"
  let ?w2 = "emit (ConsoleLog [Txt (''Executing MySQL statement: '' @ ?body)]) w"
  obtain err results flds where q: "mysql_query env (trace ?w2) c ?body = (err, results, flds)"
    by (cases "mysql_query env (trace ?w2) c ?body")
  let ?js = "identities err @ identities results @ (case flds of None \<Rightarrow> [] | Some f \<Rightarrow> identities f)"
  let ?n = "next_id (reserve ?js (emit (ConnQuery c ?body) ?w2))"
  have b: "\<forall>i\<in>set (identities results). i < ?n"
    by (auto intro: reserve_bounds(2))
  have "connected_result r w (sqlString env render r w) (err, results, flds)
          (fst (JSON_parse (JSON_stringify results) ?n))"
    using assms q
    by (auto simp: connected_result_def sqlString_def connection_query_def Let_def emit_def
          fresh_def new_object_def obj_at_def json_roundtrip_def
          split: option.splits slot.splits prod.splits)
  with b show ?thesis by (intro exI[of _ "(err, results, flds)"] exI[of _ ?n]) simp
qed

text \<open>
  Claim C7, as amended. The Operation of \<open>sqlString(r)\<close> on a connected State sends
  exactly the statement \<open>r(s)\<close>. When the driver reports no error it resolves to a State
  whose \<open>response.body\<close> is the JSON round trip of the driver's result: it serialises to
  the same JSON text, is plain structured data, shares no object identity with the
  driver's result, and is deep-equal to it whenever the driver's result is itself plain
  data (no Date inside).
\<close>

theorem sqlString_resolves_with_json_copy:
  assumes "obj_at w r ''connection'' = Some (Connection c)"
    and "sqlString env render r w = (out, w')"
  shows "statements (new_events w w') = [render (obj_at w r)] \<and>
         (\<exists>err results flds.
            callbacks (new_events w w') = [(err, results, flds)] \<and>
            (if truthy err then out = Rejected (Err err)
             else \<exists>r' b data. out = Resolved r' \<and>
                    obj_at w' r' ''response'' = Some (Val (JObj b [(''body'', data)])) \<and>
                    (\<forall>k. k \<noteq> ''response'' \<longrightarrow> obj_at w' r' k = obj_at w r k) \<and>
                    JSON_stringify data = JSON_stringify results \<and>
                    plain_data data \<and>
                    (plain_data results \<longrightarrow> deep_equal data results) \<and>
                    set (identities data) \<inter> set (identities results) = {}))"
proof -
  from sqlString_shape[of env render w r] assms obtain evs0 where
    t0: "trace w' = trace w @ evs0" and s0: "statements evs0 = [render (obj_at w r)]"
    by (auto simp: query_shape_def)
  from sqlString_connected[OF assms(1), of env render] assms(2)
  obtain reply n where
    cr: "connected_result r w (out, w') reply (fst (JSON_parse (JSON_stringify (fst (snd reply))) n))"
    and bound: "\<forall>i\<in>set (identities (fst (snd reply))). i < n"
    by auto
  obtain err results flds where rp: "reply = (err, results, flds)" by (cases reply)
  let ?data = "fst (JSON_parse (JSON_stringify results) n)"
  from cr rp have "connected_result r w (out, w') (err, results, flds) ?data" by simp
  then obtain evs where
    t: "trace w' = trace w @ evs" and cb: "callbacks evs = [(err, results, flds)]" and
    o: "if truthy err then out = Rejected (Err err) \<and> heap w' = heap w
        else out = Resolved (length (heap w)) \<and>
             (\<exists>b new. heap w' = heap w @ [new] \<and>
                new ''response'' = Some (Val (JObj b [(''body'', ?data)])) \<and>
                (\<forall>k. k \<noteq> ''response'' \<longrightarrow> new k = obj_at w r k))"
    unfolding connected_result_def fst_conv snd_conv by blast
  from t0 t have ev: "new_events w w' = evs" "evs0 = evs" by (simp_all add: new_events_def)
  have d1: "JSON_stringify ?data = JSON_stringify results" by (rule parse_stringify(1))
  have d2: "plain_data ?data" by (rule parse_plain(1))
  have d3: "plain_data results \<longrightarrow> deep_equal ?data results"
    by (simp add: roundtrip_deep_equal)
  have d4: "set (identities ?data) \<inter> set (identities results) = {}"
  proof -
    have "\<forall>i\<in>set (identities ?data). n \<le> i"
      using parse_identities(1)[of n "JSON_stringify results"] by blast
    moreover have "\<forall>i\<in>set (identities results). i < n" using bound rp by simp
    ultimately show ?thesis by fastforce
  qed
  have fin: "if truthy err then out = Rejected (Err err)
        else \<exists>r' b data. out = Resolved r' \<and>
               obj_at w' r' ''response'' = Some (Val (JObj b [(''body'', data)])) \<and>
               (\<forall>k. k \<noteq> ''response'' \<longrightarrow> obj_at w' r' k = obj_at w r k) \<and>
               JSON_stringify data = JSON_stringify results \<and>
               plain_data data \<and>
               (plain_data results \<longrightarrow> deep_equal data results) \<and>
               set (identities data) \<inter> set (identities results) = {}"
  proof (cases "truthy err")
    case True
    with o show ?thesis by simp
  next
    case False
    with o obtain b new where n: "out = Resolved (length (heap w))"
      "heap w' = heap w @ [new]"
      "new ''response'' = Some (Val (JObj b [(''body'', ?data)]))"
      "\<forall>k. k \<noteq> ''response'' \<longrightarrow> new k = obj_at w r k" by auto
    then have a: "obj_at w' (length (heap w)) ''response'' = Some (Val (JObj b [(''body'', ?data)]))"
      and k: "\<forall>k. k \<noteq> ''response'' \<longrightarrow> obj_at w' (length (heap w)) k = obj_at w r k"
      by (simp_all add: obj_at_def)
    have "\<exists>r' b data. out = Resolved r' \<and>
               obj_at w' r' ''response'' = Some (Val (JObj b [(''body'', data)])) \<and>
               (\<forall>k. k \<noteq> ''response'' \<longrightarrow> obj_at w' r' k = obj_at w r k) \<and>
               JSON_stringify data = JSON_stringify results \<and>
               plain_data data \<and>
               (plain_data results \<longrightarrow> deep_equal data results) \<and>
               set (identities data) \<inter> set (identities results) = {}"
      using n(1) a k d1 d2 d3 d4
      by (intro exI[of _ "length (heap w)"] exI[of _ b] exI[of _ ?data] conjI)
    with False show ?thesis by simp
  qed
  have st: "statements (new_events w w') = [render (obj_at w r)]" using ev s0 by simp
  have "callbacks (new_events w w') = [(err, results, flds)]" using ev cb by simp
  with fin have "\<exists>err results flds.
            callbacks (new_events w w') = [(err, results, flds)] \<and>
            (if truthy err then out = Rejected (Err err)
             else \<exists>r' b data. out = Resolved r' \<and>
                    obj_at w' r' ''response'' = Some (Val (JObj b [(''body'', data)])) \<and>
                    (\<forall>k. k \<noteq> ''response'' \<longrightarrow> obj_at w' r' k = obj_at w r k) \<and>
                    JSON_stringify data = JSON_stringify results \<and>
                    plain_data data \<and>
                    (plain_data results \<longrightarrow> deep_equal data results) \<and>
                    set (identities data) \<inter> set (identities results) = {})"
    by (intro exI[of _ err] exI[of _ results] exI[of _ flds] conjI)
  with st show ?thesis by (rule conjI)
qed

theorem sqlString_resolves_with_json_copy_witness:
  "obj_at (snd (connect 0 mock_world)) 1 ''connection'' = Some (Connection 1) \<and>
   statements (new_events (snd (connect 0 mock_world))
      (snd (sqlString mock_env (\<lambda>s. ''SELECT 1'') 1 (snd (connect 0 mock_world))))) = [''SELECT 1''] \<and>
   callbacks (new_events (snd (connect 0 mock_world))
      (snd (sqlString mock_env (\<lambda>s. ''SELECT 1'') 1 (snd (connect 0 mock_world)))))
     = [(JNull, mock_rows, None)] \<and>
   state_of (sqlString mock_env (\<lambda>s. ''SELECT 1'') 1 (snd (connect 0 mock_world))) ''response''
     = Some (Val (JObj 104 [(''body'', JArr 102 [JObj 103 [(''1'', JNum 1)]])])) \<and>
   plain_data mock_rows \<and>
   deep_equal (JArr 102 [JObj 103 [(''1'', JNum 1)]]) mock_rows \<and>
   set (identities (JArr 102 [JObj 103 [(''1'', JNum 1)]])) \<inter> set (identities mock_rows) = {}"
proof -
  let ?w = "snd (connect 0 mock_world)"
  let ?x = "sqlString mock_env (\<lambda>s. ''SELECT 1'') 1 ?w"
  have h: "obj_at ?w 1 ''connection'' = Some (Connection 1)" by code_simp
  have x: "?x = (fst ?x, snd ?x)" by simp
  from sqlString_resolves_with_json_copy[OF h x, THEN conjunct1]
  have a: "statements (new_events ?w (snd ?x)) = [''SELECT 1'']" by simp
  have c: "callbacks (new_events ?w (snd ?x)) = [(JNull, mock_rows, None)]" by code_simp
  have b: "state_of ?x ''response''
     = Some (Val (JObj 104 [(''body'', JArr 102 [JObj 103 [(''1'', JNum 1)]])]))" by code_simp
  have p: "plain_data mock_rows" by code_simp
  have d: "deep_equal (JArr 102 [JObj 103 [(''1'', JNum 1)]]) mock_rows" by code_simp
  have i: "set (identities (JArr 102 [JObj 103 [(''1'', JNum 1)]])) \<inter> set (identities mock_rows) = {}"
    by (simp add: mock_rows_def)
  from h a c b p d i show ?thesis by blast
qed

text \<open>
  The claim as stated fails where the driver's rows hold a Date, which mysql returns for a
  DATETIME column: the body holds the ISO string instead and is not deep-equal to the
  driver's result.
\<close>

theorem sqlString_body_of_dated_rows:
  "obj_at (snd (connect 0 mock_world)) 1 ''connection'' = Some (Connection 1) \<and>
   callbacks (new_events (snd (connect 0 mock_world))
      (snd (sqlString dated_env (\<lambda>s. ''SELECT d FROM t'') 1 (snd (connect 0 mock_world)))))
     = [(JNull, dated_rows, None)] \<and>
   state_of (sqlString dated_env (\<lambda>s. ''SELECT d FROM t'') 1 (snd (connect 0 mock_world))) ''response''
     = Some (Val (JObj 105 [(''body'', JArr 103 [JObj 104 [(''d'', JStr ''2020-01-01T00:00:00.000Z'')]])])) \<and>
   \<not> deep_equal (JArr 103 [JObj 104 [(''d'', JStr ''2020-01-01T00:00:00.000Z'')]]) dated_rows"
proof -
  let ?w = "snd (connect 0 mock_world)"
  let ?x = "sqlString dated_env (\<lambda>s. ''SELECT d FROM t'') 1 ?w"
  have h: "obj_at ?w 1 ''connection'' = Some (Connection 1)" by code_simp
  have c: "callbacks (new_events ?w (snd ?x)) = [(JNull, dated_rows, None)]" by code_simp
  have b: "state_of ?x ''response''
     = Some (Val (JObj 105 [(''body'', JArr 103 [JObj 104 [(''d'', JStr ''2020-01-01T00:00:00.000Z'')]])]))"
    by code_simp
  have d: "\<not> deep_equal (JArr 103 [JObj 104 [(''d'', JStr ''2020-01-01T00:00:00.000Z'')]]) dated_rows"
    by (simp add: deep_equal_def dated_rows_def)
  from h c b d show ?thesis by blast
qed

section \<open>Copies and mutation of the State object\<close>

lemma connect_fresh_copy: "fresh_copy ''connection'' r w (connect r w)"
  by (auto simp: fresh_copy_def connect_def Let_def emit_def fresh_def new_object_def obj_at_def
        split: option.splits slot.splits jsval.splits)

lemma insert_fresh_copy: "fresh_copy ''response'' r w (insert_op env table fieldsSpec r w)"
  by (auto simp: fresh_copy_def insert_op_def connection_query_def Let_def emit_def
        fresh_def new_object_def obj_at_def split: option.splits slot.splits prod.splits)

lemma upsert_fresh_copy: "fresh_copy ''response'' r w (upsert env table fieldsSpec r w)"
  by (auto simp: fresh_copy_def upsert_def connection_query_def Let_def emit_def
        fresh_def new_object_def obj_at_def
        split: option.splits slot.splits prod.splits sum.splits)

lemma sqlString_fresh_copy: "fresh_copy ''response'' r w (sqlString env render r w)"
  by (auto simp: fresh_copy_def sqlString_def connection_query_def Let_def emit_def
        fresh_def new_object_def obj_at_def json_roundtrip_def
        split: option.splits slot.splits prod.splits)

lemma fresh_copy_leaves_argument:
  assumes "fresh_copy field r w x" and "r < length (heap w)"
  shows "obj_at (snd x) r = obj_at w r"
proof (cases x)
  case (Pair out w')
  show ?thesis
  proof (cases out)
    case (Resolved r')
    with Pair assms(1) obtain new where "heap w' = heap w @ [new]"
      by (auto simp: fresh_copy_def)
    with assms(2) Pair show ?thesis by (simp add: obj_at_def nth_append)
  next
    case (Rejected e)
    with Pair assms(1) show ?thesis by (simp add: fresh_copy_def obj_at_def)
  qed
qed

lemma fresh_copy_keeps_connection:
  assumes "\<And>r w. fresh_copy field r w (operation r w)" and "field \<noteq> ''connection''"
  shows "keeps_connection operation"
  unfolding keeps_connection_def
proof (intro allI impI)
  fix r and w :: world assume "r < length (heap w)"
  obtain out w' where x: "operation r w = (out, w')" by (cases "operation r w")
  show "case operation r w of
          (Resolved r', w') \<Rightarrow>
            r' < length (heap w') \<and> obj_at w' r' ''connection'' = obj_at w r ''connection''
        | (Rejected e, w') \<Rightarrow> True"
  proof (cases out)
    case (Rejected e)
    with x show ?thesis by simp
  next
    case (Resolved r')
    with x assms(1)[of r w] obtain new where
      "r' = length (heap w)" "heap w' = heap w @ [new]"
      "\<forall>k. k \<noteq> field \<longrightarrow> new k = obj_at w r k"
      by (auto simp: fresh_copy_def)
    with assms(2) x Resolved show ?thesis by (simp add: obj_at_def)
  qed
qed

lemma keeps_connection_query_ops:
  "keeps_connection (insert_op env table fieldsSpec)"
  "keeps_connection (upsert env table fieldsSpec)"
  "keeps_connection (sqlString env render)"
  by (rule fresh_copy_keeps_connection[where field = "''response''"],
      simp_all add: insert_fresh_copy upsert_fresh_copy sqlString_fresh_copy)+

lemma keeps_connection_disconnect: "keeps_connection disconnect"
  by (auto simp: keeps_connection_def disconnect_def emit_def obj_at_def
        split: option.splits slot.splits)

text \<open>
  Claim C9, as amended. connect and the Operations of insert, upsert and sqlString
  produce their output as a new State object, a copy of the State they received in which
  only \<open>connection\<close> (connect) or \<open>response\<close> (the others) differs; every object that
  existed, the State they received included, is left as it was. disconnect returns the
  very object it received and leaves the store alone. cleanupState deletes \<open>connection\<close>
  from the object it received and returns that object.
\<close>

theorem operations_copy_or_mutate:
  "fresh_copy ''connection'' r w (connect r w) \<and>
   fresh_copy ''response'' r w (insert_op env table fieldsSpec r w) \<and>
   fresh_copy ''response'' r w (upsert env table fieldsSpec r w) \<and>
   fresh_copy ''response'' r w (sqlString env render r w) \<and>
   (\<forall>field x. fresh_copy field r w x \<and> r < length (heap w) \<longrightarrow> obj_at (snd x) r = obj_at w r) \<and>
   (case disconnect r w of
      (Resolved r', w') \<Rightarrow> r' = r \<and> heap w' = heap w
    | (Rejected e, w') \<Rightarrow> heap w' = heap w) \<and>
   fst (cleanupState r w) = Resolved r \<and>
   heap (snd (cleanupState r w)) = (heap w)[r := (obj_at w r)(''connection'' := None)]"
proof (intro conjI)
  show "fresh_copy ''connection'' r w (connect r w)" by (rule connect_fresh_copy)
  show "fresh_copy ''response'' r w (insert_op env table fieldsSpec r w)"
    by (rule insert_fresh_copy)
  show "fresh_copy ''response'' r w (upsert env table fieldsSpec r w)"
    by (rule upsert_fresh_copy)
  show "fresh_copy ''response'' r w (sqlString env render r w)"
    by (rule sqlString_fresh_copy)
  show "\<forall>field x. fresh_copy field r w x \<and> r < length (heap w) \<longrightarrow> obj_at (snd x) r = obj_at w r"
    using fresh_copy_leaves_argument by blast
  show "case disconnect r w of
      (Resolved r', w') \<Rightarrow> r' = r \<and> heap w' = heap w
    | (Rejected e, w') \<Rightarrow> heap w' = heap w"
    by (auto simp: disconnect_def emit_def split: option.splits slot.splits)
  show "fst (cleanupState r w) = Resolved r" by (simp add: cleanupState_def)
  show "heap (snd (cleanupState r w)) = (heap w)[r := (obj_at w r)(''connection'' := None)]"
    by (simp add: cleanupState_def)
qed

theorem operations_copy_or_mutate_witness:
  "1 < length (heap (snd (connect 0 mock_world))) \<and>
   fresh_copy ''response'' 1 (snd (connect 0 mock_world))
     (insert_op mock_env ''t'' [(''a'', JNum 1)] 1 (snd (connect 0 mock_world))) \<and>
   fst (insert_op mock_env ''t'' [(''a'', JNum 1)] 1 (snd (connect 0 mock_world))) = Resolved 2 \<and>
   obj_at (snd (insert_op mock_env ''t'' [(''a'', JNum 1)] 1 (snd (connect 0 mock_world)))) 1
     = obj_at (snd (connect 0 mock_world)) 1"
proof -
  let ?w = "snd (connect 0 mock_world)"
  let ?x = "insert_op mock_env ''t'' [(''a'', JNum 1)] 1 ?w"
  note t = operations_copy_or_mutate[of 1 ?w mock_env "''t''" "[(''a'', JNum 1)]" "\<lambda>s. ''SELECT 1''"]
  have v: "1 < length (heap ?w)" by code_simp
  from t have c: "fresh_copy ''response'' 1 ?w ?x" by blast
  from t have "\<forall>field x. fresh_copy field 1 ?w x \<and> 1 < length (heap ?w) \<longrightarrow> obj_at (snd x) 1 = obj_at ?w 1"
    by blast
  with c v have u: "obj_at (snd ?x) 1 = obj_at ?w 1" by blast
  have f: "fst ?x = Resolved 2" by code_simp
  from v c f u show ?thesis by blast
qed

text \<open>
  The claim as stated fails for cleanupState and disconnect: both return the reference
  they received, not a copy, and after cleanupState the received object itself has lost
  its \<open>connection\<close>.
\<close>

theorem cleanupState_changes_the_object_it_received:
  "obj_at (snd (connect 0 mock_world)) 1 ''connection'' = Some (Connection 1) \<and>
   fst (cleanupState 1 (snd (connect 0 mock_world))) = Resolved 1 \<and>
   obj_at (snd (cleanupState 1 (snd (connect 0 mock_world)))) 1 ''connection'' = None \<and>
   length (heap (snd (cleanupState 1 (snd (connect 0 mock_world)))))
     = length (heap (snd (connect 0 mock_world))) \<and>
   fst (disconnect 1 (snd (connect 0 mock_world))) = Resolved 1 \<and>
   length (heap (snd (disconnect 1 (snd (connect 0 mock_world)))))
     = length (heap (snd (connect 0 mock_world)))"
proof (intro conjI)
  show "obj_at (snd (connect 0 mock_world)) 1 ''connection'' = Some (Connection 1)" by code_simp
  show "fst (cleanupState 1 (snd (connect 0 mock_world))) = Resolved 1" by code_simp
  show "obj_at (snd (cleanupState 1 (snd (connect 0 mock_world)))) 1 ''connection'' = None"
    by code_simp
  show "length (heap (snd (cleanupState 1 (snd (connect 0 mock_world)))))
     = length (heap (snd (connect 0 mock_world)))" by code_simp
  show "fst (disconnect 1 (snd (connect 0 mock_world))) = Resolved 1" by code_simp
  show "length (heap (snd (disconnect 1 (snd (connect 0 mock_world)))))
     = length (heap (snd (connect 0 mock_world)))" by code_simp
qed

section \<open>The connection property along a run\<close>

lemma connect_resolved:
  assumes "connect r w = (Resolved r1, w1)"
  shows "holds_connection (next_id w) (Resolved r1, w1) \<and> opened (new_events w w1) = [next_id w]"
  using assms
  by (auto simp: connect_def Let_def emit_def fresh_def new_object_def obj_at_def new_events_def
        split: option.splits slot.splits jsval.splits)

lemma keeps_connection_step:
  assumes "keeps_connection operation" and "holds_connection c x"
    and "resolved (apply_to operation x)"
  shows "holds_connection c (apply_to operation x)"
proof -
  obtain out0 w where x0: "x = (out0, w)" by (cases x)
  with assms(2) obtain r where x: "x = (Resolved r, w)" by (cases out0) simp_all
  with assms(2) have v: "r < length (heap w)" and c: "obj_at w r ''connection'' = Some (Connection c)"
    by simp_all
  obtain out w' where o: "operation r w = (out, w')" by (cases "operation r w")
  with assms(3) x obtain r' where out: "out = Resolved r'"
    by (cases out) (simp_all add: apply_to_def)
  note assms(1)[unfolded keeps_connection_def, rule_format, OF v]
  with o out have "r' < length (heap w')"
    "obj_at w' r' ''connection'' = obj_at w r ''connection''"
    by simp_all
  with c x o out show ?thesis by (simp add: apply_to_def)
qed

lemma merged_state_connection:
  "merged_state r w = (r0, w0) \<Longrightarrow>
   r0 < length (heap w0) \<and> obj_at w0 r0 ''connection'' = obj_at w r ''connection''"
  by (auto simp: merged_state_def fresh_def new_object_def obj_at_def map_add_def
        split: option.splits)

lemma cleanupState_removes:
  "holds_connection c x \<Longrightarrow> connection_of (apply_to cleanupState x) = None"
proof -
  assume h: "holds_connection c x"
  obtain out w where x0: "x = (out, w)" by (cases x)
  with h obtain r where "x = (Resolved r, w)" by (cases out) simp_all
  with h show ?thesis by (simp add: apply_to_def cleanupState_def obj_at_def)
qed


lemma holds_connection_of: "holds_connection c x \<Longrightarrow> connection_of x = Some (Connection c)"
proof -
  assume h: "holds_connection c x"
  obtain out w where x0: "x = (out, w)" by (cases x)
  with h obtain r where "x = (Resolved r, w)" by (cases out) simp_all
  with h show ?thesis by simp
qed

text \<open>
  Claim C8, as amended. In every successful run whose Operations keep the connection (as
  those of insert, upsert and sqlString, and disconnect, do), the State handed to connect
  carries the \<open>connection\<close> property of the caller's State and no other; from the result
  of connect to the result of disconnect every State has \<open>connection\<close> set to the one
  connection that connect opened; the result of cleanupState, which is the State returned
  to the caller, has no \<open>connection\<close>.
\<close>

theorem connection_between_connect_and_cleanup:
  assumes "list_all keeps_connection operations"
    and "merged_state r w = (r0, w0)"
    and "execute operations r w = (Resolved r', w')"
  shows "obj_at w0 r0 ''connection'' = obj_at w r ''connection'' \<and>
         (\<exists>c. opened (new_events w0 (snd (steps (pipeline operations) r0 w0 ! 0))) = [c] \<and>
              (\<forall>i<length operations + 2.
                 connection_of (steps (pipeline operations) r0 w0 ! i) = Some (Connection c))) \<and>
         connection_of (steps (pipeline operations) r0 w0 ! (length operations + 2)) = None \<and>
         obj_at w' r' ''connection'' = None \<and>
         keeps_connection (insert_op env table fieldsSpec) \<and>
         keeps_connection (upsert env table fieldsSpec) \<and>
         keeps_connection (sqlString env render) \<and>
         keeps_connection disconnect"
proof -
  let ?log = "steps (pipeline operations) r0 w0"
  let ?n = "length operations"
  from assms(2,3) have ce: "commonExecute (pipeline operations) r0 w0 = (Resolved r', w')"
    by (simp add: execute_def)
  note st = resolved_run_steps[OF ce]
  from st have s0: "?log ! 0 = connect r0 w0" by blast
  from st have su: "\<forall>i<?n. ?log ! Suc i = apply_to (operations ! i) (?log ! i)" by blast
  from st have sd: "?log ! (?n + 1) = apply_to disconnect (?log ! ?n)" by blast
  from st have sc: "?log ! (?n + 2) = apply_to cleanupState (?log ! (?n + 1))" by blast
  from st have sf: "?log ! (?n + 2) = (Resolved r', w')" by blast
  from st have sr: "\<forall>i<?n + 3. resolved (?log ! i)" by blast
  from merged_state_connection[OF assms(2)]
  have before: "obj_at w0 r0 ''connection'' = obj_at w r ''connection''" by simp
  define c where "c = next_id w0"
  from sr have "resolved (?log ! 0)" by simp
  with s0 obtain r1 w1 where c1: "connect r0 w0 = (Resolved r1, w1)"
    by (cases "connect r0 w0"; cases "fst (connect r0 w0)") auto
  from connect_resolved[OF c1] s0 c1 c_def
  have h0: "holds_connection c (?log ! 0)"
    and op: "opened (new_events w0 (snd (?log ! 0))) = [c]" by simp_all
  have inv: "i \<le> ?n \<Longrightarrow> holds_connection c (?log ! i)" for i
  proof (induction i)
    case 0
    show ?case by (rule h0)
  next
    case (Suc i)
    then have i: "i < ?n" and h: "holds_connection c (?log ! i)" by simp_all
    from assms(1) i have k: "keeps_connection (operations ! i)" by (simp add: list_all_length)
    from su i have e: "?log ! Suc i = apply_to (operations ! i) (?log ! i)" by simp
    from sr i have "resolved (?log ! Suc i)" by simp
    with e have "resolved (apply_to (operations ! i) (?log ! i))" by simp
    from keeps_connection_step[OF k h this] e show ?case by simp
  qed
  have hn: "holds_connection c (?log ! ?n)" by (rule inv) simp
  from sr have "resolved (?log ! (?n + 1))" by simp
  with sd have "resolved (apply_to disconnect (?log ! ?n))" by simp
  from keeps_connection_step[OF keeps_connection_disconnect hn this] sd
  have hd: "holds_connection c (?log ! (?n + 1))" by simp
  have during: "\<forall>i<?n + 2. connection_of (?log ! i) = Some (Connection c)"
  proof (intro allI impI)
    fix i assume "i < ?n + 2"
    then have "i \<le> ?n \<or> i = ?n + 1" by arith
    then have "holds_connection c (?log ! i)" using inv hd by auto
    then show "connection_of (?log ! i) = Some (Connection c)" by (rule holds_connection_of)
  qed
  from cleanupState_removes[OF hd] sc
  have after: "connection_of (?log ! (?n + 2)) = None" by simp
  with sf have final: "obj_at w' r' ''connection'' = None" by simp
  from op during have ex: "\<exists>c. opened (new_events w0 (snd (?log ! 0))) = [c] \<and>
              (\<forall>i<?n + 2. connection_of (?log ! i) = Some (Connection c))"
    by blast
  have k1: "keeps_connection (insert_op env table fieldsSpec)"
    and k2: "keeps_connection (upsert env table fieldsSpec)"
    and k3: "keeps_connection (sqlString env render)"
    by (rule keeps_connection_query_ops)+
  note k4 = keeps_connection_disconnect
  from before ex after final k1 k2 k3 k4
  show ?thesis by (intro conjI)
qed

theorem connection_between_connect_and_cleanup_witness:
  "list_all keeps_connection [sqlString mock_env (\<lambda>s. ''SELECT 1'')] \<and>
   fst (execute [sqlString mock_env (\<lambda>s. ''SELECT 1'')] 0 mock_world) = Resolved 3 \<and>
   obj_at (snd (merged_state 0 mock_world)) (fst (merged_state 0 mock_world)) ''connection'' = None \<and>
   map connection_of
     (steps (pipeline [sqlString mock_env (\<lambda>s. ''SELECT 1'')])
        (fst (merged_state 0 mock_world)) (snd (merged_state 0 mock_world)))
     = [Some (Connection 2), Some (Connection 2), Some (Connection 2), None] \<and>
   obj_at (snd (execute [sqlString mock_env (\<lambda>s. ''SELECT 1'')] 0 mock_world)) 3 ''connection''
     = None"
proof -
  let ?ops = "[sqlString mock_env (\<lambda>s. ''SELECT 1'')]"
  let ?r0 = "fst (merged_state 0 mock_world)"
  let ?w0 = "snd (merged_state 0 mock_world)"
  let ?x = "execute ?ops 0 mock_world"
  have k: "list_all keeps_connection ?ops" by (simp add: keeps_connection_query_ops)
  have m: "merged_state 0 mock_world = (?r0, ?w0)" by simp
  have f: "fst ?x = Resolved 3" by code_simp
  then have e: "?x = (Resolved 3, snd ?x)" by (simp add: prod_eq_iff)
  note t = connection_between_connect_and_cleanup[OF k m e,
      of mock_env "''t''" "[(''a'', JNum 1)]" "\<lambda>s. ''SELECT 1''"]
  note a = t[THEN conjunct2, THEN conjunct2, THEN conjunct2, THEN conjunct1]
  have b: "obj_at ?w0 ?r0 ''connection'' = None" by code_simp
  have s: "map connection_of (steps (pipeline ?ops) ?r0 ?w0)
     = [Some (Connection 2), Some (Connection 2), Some (Connection 2), None]"
    by code_simp
  from k f b s a show ?thesis by (intro conjI)
qed

text \<open>
  The claim as stated fails in two ways. A caller's State that carries a \<open>connection\<close>
  property keeps it in the State handed to connect. And a successful run need not keep
  the property between connect and cleanupState: a caller's Operation may delete it and a
  later one put it back.
\<close>

theorem connection_present_before_connect_or_absent_between:
  "resolved (execute [] 0 stale_world) \<and>
   obj_at (snd (merged_state 0 stale_world)) (fst (merged_state 0 stale_world)) ''connection''
     = Some (Val (JStr ''stale'')) \<and>
   resolved (execute [pure_operation (\<lambda>s. s(''connection'' := None)),
                      pure_operation (\<lambda>s. s(''connection'' \<mapsto> Connection 2))] 0 mock_world) \<and>
   map connection_of
     (steps (pipeline [pure_operation (\<lambda>s. s(''connection'' := None)),
                       pure_operation (\<lambda>s. s(''connection'' \<mapsto> Connection 2))])
        (fst (merged_state 0 mock_world)) (snd (merged_state 0 mock_world)))
     = [Some (Connection 2), None, Some (Connection 2), Some (Connection 2), None]"
proof (intro conjI)
  show "resolved (execute [] 0 stale_world)" by code_simp
  show "obj_at (snd (merged_state 0 stale_world)) (fst (merged_state 0 stale_world)) ''connection''
     = Some (Val (JStr ''stale''))" by code_simp
  show "resolved (execute [pure_operation (\<lambda>s. s(''connection'' := None)),
                      pure_operation (\<lambda>s. s(''connection'' \<mapsto> Connection 2))] 0 mock_world)"
    by code_simp
  show "map connection_of
     (steps (pipeline [pure_operation (\<lambda>s. s(''connection'' := None)),
                       pure_operation (\<lambda>s. s(''connection'' \<mapsto> Connection 2))])
        (fst (merged_state 0 mock_world)) (snd (merged_state 0 mock_world)))
     = [Some (Connection 2), None, Some (Connection 2), Some (Connection 2), None]"
    by code_simp
qed

end
